theory Spec2Isabelle
  imports Complex_Main "HOL-Library.Sublist" "HOL-Library.Log_Nat"
begin

section \<open>Data model\<close>

text \<open>
  The notebook \<open>Classifying_TESS_flares_with_CNNs.ipynb\<close> works on numpy arrays of
  floating-point numbers. A floating-point value is a finite number, one of the two
  infinities, or NaN (signed zeros are not distinguished: nothing in the notebook
  depends on the sign of a zero).
\<close>

datatype npfloat = Finite rat | PosInf | NegInf | NaN

text \<open>\<open>np.isnan\<close> on one element.\<close>

fun isnan :: "npfloat \<Rightarrow> bool" where
  "isnan NaN = True"
| "isnan _ = False"

text \<open>
  A numpy array: its shape and its elements in row-major (C) order. The array is
  well formed when the number of elements is the product of the shape.
\<close>

record 'a ndarray =
  shape :: "nat list"
  data :: "'a list"

definition wf_ndarray :: "'a ndarray \<Rightarrow> bool" where
  "wf_ndarray a = (length (data a) = prod_list (shape a))"

text \<open>The exceptions of Python and numpy that the modelled code can raise.\<close>

datatype error = IndexError | ValueError | TypeError

section \<open>The NaN filter\<close>

text \<open>
  \<open>input_data[k, :, :]\<close>: an integer index on the first axis and two full slices.
  numpy raises IndexError when the array has fewer than three axes ("too many indices")
  and when \<open>k\<close> is out of bounds for the first axis. The result drops the first axis;
  its elements are the \<open>k\<close>-th block of the row-major data.
\<close>

definition index_k :: "'a ndarray \<Rightarrow> nat \<Rightarrow> error + 'a ndarray" where
  "index_k a k =
     (case shape a of
        n # m # c # rest \<Rightarrow>
          if k < n
          then (let sz = prod_list (m # c # rest)
                in Inr \<lparr>shape = m # c # rest, data = take sz (drop (k * sz) (data a))\<rparr>)
          else Inl IndexError
      | _ \<Rightarrow> Inl IndexError)"

text \<open>\<open>np.isnan(x)\<close>: the boolean array of the same shape.\<close>

definition np_isnan :: "npfloat ndarray \<Rightarrow> bool ndarray" where
  "np_isnan a = \<lparr>shape = shape a, data = map isnan (data a)\<rparr>"

text \<open>
  \<open>x[mask]\<close> with a boolean mask of the shape of \<open>x\<close>: the one-dimensional array of the
  elements of \<open>x\<close> at which the mask is true, in row-major order. The notebook builds
  the mask from \<open>x\<close> itself, so the shapes always agree; for a mask that does not fit
  the array numpy raises IndexError.
\<close>

definition mask_select :: "'a ndarray \<Rightarrow> bool ndarray \<Rightarrow> error + 'a ndarray" where
  "mask_select a msk =
     (if shape msk = shape a
      then (let sel = map fst (filter snd (zip (data a) (data msk)))
            in Inr \<lparr>shape = [length sel], data = sel\<rparr>)
      else Inl IndexError)"

text \<open>
  \<open>len(x)\<close> of an array is the size of its first axis; on a 0-d array Python raises
  TypeError ("len() of unsized object").
\<close>

definition np_len :: "'a ndarray \<Rightarrow> error + nat" where
  "np_len a = (case shape a of [] \<Rightarrow> Inl TypeError | n # _ \<Rightarrow> Inr n)"

text \<open>
  The test of the loop body,
  \<open>len(input_data[k, :, :][np.isnan(input_data[k, :, :])]) == 0\<close>.
\<close>

definition no_nans_at :: "npfloat ndarray \<Rightarrow> nat \<Rightarrow> error + bool" where
  "no_nans_at input_data k =
     (case index_k input_data k of
        Inl e \<Rightarrow> Inl e
      | Inr s \<Rightarrow>
          (case mask_select s (np_isnan s) of
             Inl e \<Rightarrow> Inl e
           | Inr sel \<Rightarrow> (case np_len sel of Inl e \<Rightarrow> Inl e | Inr l \<Rightarrow> Inr (l = 0))))"

text \<open>
  The loop \<open>for k in range(...): if ...: idx.append(k)\<close>, over the remaining values of
  \<open>k\<close>, with the list \<open>idx\<close> built so far.
\<close>

fun remove_nans_loop :: "npfloat ndarray \<Rightarrow> nat list \<Rightarrow> nat list \<Rightarrow> error + nat list" where
  "remove_nans_loop input_data [] idx = Inr idx"
| "remove_nans_loop input_data (k # ks) idx =
     (case no_nans_at input_data k of
        Inl e \<Rightarrow> Inl e
      | Inr b \<Rightarrow> remove_nans_loop input_data ks (if b then idx @ [k] else idx))"

text \<open>
  \<open>remove_nans(input_data)\<close>. \<open>np.shape(input_data)[0]\<close> raises IndexError on a 0-d
  array.
\<close>

definition remove_nans :: "npfloat ndarray \<Rightarrow> error + nat list" where
  "remove_nans input_data =
     (case shape input_data of
        [] \<Rightarrow> Inl IndexError
      | n # _ \<Rightarrow> remove_nans_loop input_data [0..<n] [])"

text \<open>
  \<open>a[idx]\<close> with a Python list of integers: the blocks of the first axis picked by
  \<open>idx\<close>, in the order of \<open>idx\<close>. numpy raises IndexError on a 0-d array and on an
  index out of bounds. (The indices of the notebook come from \<open>range\<close>, so they are
  never negative.)
\<close>

definition take_idx :: "'a ndarray \<Rightarrow> nat list \<Rightarrow> error + 'a ndarray" where
  "take_idx a idx =
     (case shape a of
        [] \<Rightarrow> Inl IndexError
      | n # rest \<Rightarrow>
          if list_all (\<lambda>k. k < n) idx
          then (let sz = prod_list rest
                in Inr \<lparr>shape = length idx # rest,
                        data = concat (map (\<lambda>k. take sz (drop (k * sz) (data a))) idx)\<rparr>)
          else Inl IndexError)"

text \<open>
  The element \<open>a[k, i, j]\<close> of a three-dimensional array, and the \<open>k\<close>-th block
  \<open>a[k]\<close> of the first axis of any array (the example or the label number \<open>k\<close>), as
  the list of its elements.
\<close>

definition elem3 :: "'a ndarray \<Rightarrow> nat \<Rightarrow> nat \<Rightarrow> nat \<Rightarrow> 'a" where
  "elem3 a k i j = data a ! (k * (shape a ! 1 * shape a ! 2) + i * shape a ! 2 + j)"

definition block :: "'a ndarray \<Rightarrow> nat \<Rightarrow> 'a list" where
  "block a k = (let sz = prod_list (tl (shape a)) in take sz (drop (k * sz) (data a)))"

text \<open>
  The dataset object \<open>ds\<close> of the notebook: the examples and the labels of the training,
  test and validation splits.
\<close>

record 'l dataset =
  train_data :: "npfloat ndarray"
  train_labels :: "'l ndarray"
  test_data :: "npfloat ndarray"
  test_labels :: "'l ndarray"
  val_data :: "npfloat ndarray"
  val_labels :: "'l ndarray"

text \<open>
  The statements of the cell after the definition of \<open>remove_nans\<close>: the three index
  lists are computed, then the examples and the labels of each split are replaced by
  their selections. An exception ends the cell.
\<close>

definition filter_splits :: "'l dataset \<Rightarrow> error + 'l dataset" where
  "filter_splits ds =
     (case remove_nans (train_data ds) of Inl e \<Rightarrow> Inl e | Inr idx_train \<Rightarrow>
      case remove_nans (test_data ds) of Inl e \<Rightarrow> Inl e | Inr idx_test \<Rightarrow>
      case remove_nans (val_data ds) of Inl e \<Rightarrow> Inl e | Inr idx_val \<Rightarrow>
      case take_idx (train_data ds) idx_train of Inl e \<Rightarrow> Inl e | Inr d1 \<Rightarrow>
      case take_idx (train_labels ds) idx_train of Inl e \<Rightarrow> Inl e | Inr l1 \<Rightarrow>
      case take_idx (test_data ds) idx_test of Inl e \<Rightarrow> Inl e | Inr d2 \<Rightarrow>
      case take_idx (test_labels ds) idx_test of Inl e \<Rightarrow> Inl e | Inr l2 \<Rightarrow>
      case take_idx (val_data ds) idx_val of Inl e \<Rightarrow> Inl e | Inr d3 \<Rightarrow>
      case take_idx (val_labels ds) idx_val of Inl e \<Rightarrow> Inl e | Inr l3 \<Rightarrow>
        Inr (ds\<lparr>train_data := d1, train_labels := l1,
                 test_data := d2, test_labels := l2,
                 val_data := d3, val_labels := l3\<rparr>))"

text \<open>
  A split as the dataset loader builds it: well-formed arrays, three-dimensional
  examples, and labels with the first dimension of the examples.
\<close>

definition split_ok :: "npfloat ndarray \<Rightarrow> 'l ndarray \<Rightarrow> bool" where
  "split_ok d l =
     (wf_ndarray d \<and> wf_ndarray l \<and> length (shape d) = 3
      \<and> shape l \<noteq> [] \<and> hd (shape l) = hd (shape d))"

text \<open>
  Pairwise correspondence of a selection \<open>(d', l')\<close> from \<open>(d, l)\<close> by the index list
  \<open>idx\<close>: both have \<open>len(idx)\<close> blocks, and at every position \<open>i\<close> the example is the
  original example \<open>idx[i]\<close> and the label is the original label \<open>idx[i]\<close>.
\<close>

definition corresponds ::
  "nat list \<Rightarrow> 'a ndarray \<Rightarrow> 'b ndarray \<Rightarrow> 'a ndarray \<Rightarrow> 'b ndarray \<Rightarrow> bool" where
  "corresponds idx d l d' l' =
     (shape d' = length idx # tl (shape d) \<and> shape l' = length idx # tl (shape l)
      \<and> list_all (\<lambda>i. block d' i = block d (idx ! i) \<and> block l' i = block l (idx ! i))
           [0..<length idx])"

text \<open>
  A small dataset for the examples below: three training examples of shape \<open>(2, 1)\<close>,
  the second of which holds a NaN, with their labels; one test example with a NaN; and
  one validation example without.
\<close>

definition example_data :: "npfloat ndarray" where
  "example_data =
     \<lparr>shape = [3, 2, 1], data = [Finite 1, Finite 2, NaN, Finite 4, Finite 5, Finite 6]\<rparr>"

definition example_labels :: "int ndarray" where
  "example_labels = \<lparr>shape = [3], data = [1, 0, 1]\<rparr>"

definition example_dataset :: "int dataset" where
  "example_dataset =
     \<lparr>train_data = example_data, train_labels = example_labels,
      test_data = \<lparr>shape = [1, 2, 1], data = [NaN, Finite 3]\<rparr>,
      test_labels = \<lparr>shape = [1], data = [1]\<rparr>,
      val_data = \<lparr>shape = [1, 2, 1], data = [Finite 7, Finite 8]\<rparr>,
      val_labels = \<lparr>shape = [1], data = [0]\<rparr>\<rparr>"

section \<open>Floating-point arithmetic\<close>

text \<open>
  numpy computes the confusion matrix in IEEE 754 double precision (\<open>float64\<close>) with
  rounding to nearest, ties to even. A finite double is an integer multiple of a power
  of two: 53 significant bits, exponents from \<open>-1022\<close> to \<open>1023\<close>, gradual underflow
  below. \<open>rne\<close> rounds a rational to the nearest integer, ties to the even one.
\<close>

definition rne :: "rat \<Rightarrow> int" where
  "rne q = (let f = \<lfloor>q\<rfloor>; r = q - of_int f
            in if r < 1 / 2 then f
               else if 1 / 2 < r then f + 1
               else if even f then f else f + 1)"

text \<open>
  For \<open>q > 0\<close>, \<open>ilog2 q\<close> is the exponent \<open>e\<close> with \<open>2 powi e \<le> q < 2 powi (e + 1)\<close>,
  computed from the bit lengths of numerator and denominator.
\<close>

definition ilog2 :: "rat \<Rightarrow> int" where
  "ilog2 q = (case quotient_of q of (a, b) \<Rightarrow>
                (let d = bitlen a - bitlen b
                 in if 2 powi d \<le> q then d else d - 1))"

text \<open>
  The double nearest to the rational \<open>q\<close>: \<open>q\<close> is rounded to a multiple of the unit in
  the last place of its binade (of the smallest binade for subnormal numbers), and a
  result of magnitude \<open>2 ^ 1024\<close> or more overflows to an infinity.
\<close>

definition round_float64 :: "rat \<Rightarrow> npfloat" where
  "round_float64 q =
     (if q = 0 then Finite 0
      else (let e = max (ilog2 \<bar>q\<bar>) (- 1022);
                u = 2 powi (e - 52);
                r = of_int (rne (q / u)) * u
            in if 2 ^ 1024 \<le> r then PosInf
               else if r \<le> - (2 ^ 1024) then NegInf
               else Finite r))"

text \<open>Addition of two doubles.\<close>

fun fadd :: "npfloat \<Rightarrow> npfloat \<Rightarrow> npfloat" where
  "fadd NaN _ = NaN"
| "fadd _ NaN = NaN"
| "fadd PosInf NegInf = NaN"
| "fadd NegInf PosInf = NaN"
| "fadd PosInf _ = PosInf"
| "fadd _ PosInf = PosInf"
| "fadd NegInf _ = NegInf"
| "fadd _ NegInf = NegInf"
| "fadd (Finite a) (Finite b) = round_float64 (a + b)"

text \<open>
  Division of two doubles as numpy does it: no exception is raised, a division by zero
  gives NaN for \<open>0 / 0\<close> and an infinity otherwise (numpy only emits a RuntimeWarning).
  A zero divisor is taken as \<open>+0\<close>: the divisors of the notebook are sums of counts.
\<close>

fun fdiv :: "npfloat \<Rightarrow> npfloat \<Rightarrow> npfloat" where
  "fdiv NaN _ = NaN"
| "fdiv _ NaN = NaN"
| "fdiv PosInf PosInf = NaN"
| "fdiv PosInf NegInf = NaN"
| "fdiv NegInf PosInf = NaN"
| "fdiv NegInf NegInf = NaN"
| "fdiv PosInf (Finite b) = (if 0 \<le> b then PosInf else NegInf)"
| "fdiv NegInf (Finite b) = (if 0 \<le> b then NegInf else PosInf)"
| "fdiv (Finite a) PosInf = Finite 0"
| "fdiv (Finite a) NegInf = Finite 0"
| "fdiv (Finite a) (Finite b) =
     (if b = 0
      then (if a = 0 then NaN else if 0 < a then PosInf else NegInf)
      else round_float64 (a / b))"

text \<open>The comparison \<open>x > y\<close> of two floating-point values: false when one is NaN.\<close>

fun fgt :: "npfloat \<Rightarrow> npfloat \<Rightarrow> bool" where
  "fgt NaN _ = False"
| "fgt _ NaN = False"
| "fgt PosInf PosInf = False"
| "fgt PosInf _ = True"
| "fgt _ PosInf = False"
| "fgt NegInf _ = False"
| "fgt _ NegInf = True"
| "fgt (Finite a) (Finite b) = (b < a)"

section \<open>The confusion-matrix helper\<close>

text \<open>
  \<open>(predictions > 0.5).astype('int32')\<close> on one prediction.
\<close>

definition binarize :: "npfloat \<Rightarrow> int" where
  "binarize p = (if fgt p (Finite (1 / 2)) then 1 else 0)"

text \<open>
  \<open>metrics.confusion_matrix(y_true, y_pred, labels=...)\<close> of scikit-learn as the helper
  calls it: \<open>y_true\<close> is the one-dimensional array of labels and \<open>y_pred\<close> is the
  \<open>(n, 1)\<close> column of thresholded predictions, each given by its elements. Entry
  \<open>(i, j)\<close> counts the samples whose true label is the \<open>i\<close>-th of \<open>labels\<close> and whose
  predicted label is the \<open>j\<close>-th; samples with another label are left out. It raises
  ValueError when the two arrays differ in length, when they are empty (scikit-learn
  cannot tell the kind of target of an empty column), when \<open>labels\<close> is empty, and
  when \<open>y_true\<close> holds none of \<open>labels\<close>.
\<close>

definition pair_count :: "int list \<Rightarrow> int list \<Rightarrow> int \<Rightarrow> int \<Rightarrow> int" where
  "pair_count y_true y_pred i j =
     int (length (filter (\<lambda>(t, p). t = i \<and> p = j) (zip y_true y_pred)))"

definition confusion_matrix :: "int list \<Rightarrow> int list \<Rightarrow> int list \<Rightarrow> error + int list list" where
  "confusion_matrix y_true y_pred labels =
     (if length y_true \<noteq> length y_pred then Inl ValueError
      else if y_pred = [] then Inl ValueError
      else if labels = [] then Inl ValueError
      else if \<not> list_ex (\<lambda>t. t \<in> set labels) y_true then Inl ValueError
      else Inr (map (\<lambda>i. map (\<lambda>j. pair_count y_true y_pred i j) labels) labels))"

text \<open>\<open>cm.astype('float')\<close> on one count.\<close>

definition astype_float :: "int \<Rightarrow> npfloat" where
  "astype_float n = round_float64 (of_int n)"

text \<open>The sum of one row, as \<open>cm.sum(axis=1)\<close> accumulates it from left to right.\<close>

definition np_sum :: "npfloat list \<Rightarrow> npfloat" where
  "np_sum row = foldl fadd (Finite 0) row"

text \<open>
  \<open>cm / cm.sum(axis=1)[:, np.newaxis]\<close>: the vector of row sums is broadcast along the
  rows, so that every entry is divided by the sum of its row.
\<close>

definition normalize_rows :: "npfloat list list \<Rightarrow> npfloat list list" where
  "normalize_rows cm =
     (let row_sums = map np_sum cm
      in map (\<lambda>(row, s). map (\<lambda>x. fdiv x s) row) (zip cm row_sums))"

text \<open>
  \<open>plot_confusion_matrix(cnn, input_data, input_labels)\<close>, up to the matrix \<open>cm_norm\<close>
  that it draws; the drawing itself is not modelled. The trained network is the
  function \<open>cnn_predict\<close>, standing for \<open>cnn.predict\<close>, which gives one probability
  for each example.
\<close>

definition plot_confusion_matrix ::
  "('x \<Rightarrow> npfloat list) \<Rightarrow> 'x \<Rightarrow> int list \<Rightarrow> error + npfloat list list" where
  "plot_confusion_matrix cnn_predict input_data input_labels =
     (let predictions = cnn_predict input_data;
          predictions = map binarize predictions
      in case confusion_matrix input_labels predictions [0, 1] of
           Inl e \<Rightarrow> Inl e
         | Inr cm \<Rightarrow>
             (let cm = map (map astype_float) cm;
                  cm_norm = normalize_rows cm
              in Inr cm_norm))"

text \<open>
  The same matrix in the words of the specification: the predictions are thresholded
  at 0.5, entry \<open>(i, j)\<close> of the 2x2 matrix over the classes 0 and 1 is the number of
  positions with true label \<open>i\<close> and thresholded prediction \<open>j\<close>, and every entry is
  divided by the sum of its row.
\<close>

definition thresholded :: "npfloat list \<Rightarrow> int list" where
  "thresholded predictions = map (\<lambda>p. if fgt p (Finite (1 / 2)) then 1 else 0) predictions"

definition class_count :: "int list \<Rightarrow> int list \<Rightarrow> int \<Rightarrow> int \<Rightarrow> int" where
  "class_count y_true y_pred i j =
     int (length (filter (\<lambda>k. y_true ! k = i \<and> y_pred ! k = j) [0..<length y_true]))"

definition row_sum_spec :: "int list \<Rightarrow> int list \<Rightarrow> int \<Rightarrow> npfloat" where
  "row_sum_spec y_true y_pred i =
     fadd (fadd (Finite 0) (astype_float (class_count y_true y_pred i 0)))
          (astype_float (class_count y_true y_pred i 1))"

definition cm_norm_spec :: "npfloat list \<Rightarrow> int list \<Rightarrow> npfloat list list" where
  "cm_norm_spec predictions labels =
     map (\<lambda>i. map (\<lambda>j. fdiv (astype_float (class_count labels (thresholded predictions) i j))
                            (row_sum_spec labels (thresholded predictions) i))
                [0, 1])
         [0, 1]"

section \<open>The network\<close>

text \<open>
  The layers of Keras that the notebook uses, with the arguments it passes:
  \<open>Convolution1D(filters, kernel_size, activation, padding)\<close>,
  \<open>MaxPooling1D(pool_size)\<close>, \<open>Dropout(rate)\<close>, \<open>Flatten()\<close> and
  \<open>Dense(units, activation)\<close>.
\<close>

datatype activation = Relu | Sigmoid

datatype padding = Same | Valid

datatype layer =
    InputLayer "nat list"
  | Convolution1D nat nat activation padding
  | MaxPooling1D nat
  | Dropout rat
  | Flatten
  | Dense nat activation

text \<open>
  The shape (without the batch axis) of the output of a layer called on an input of
  the given shape, as Keras infers it when the layer is called; Keras raises
  ValueError when no output of that shape exists. A convolution padded with \<open>'same'\<close>
  keeps the number of steps, one without padding loses \<open>kernel_size - 1\<close> of them. A
  max-pooling has no padding and its stride is the size of the pool, so it needs at
  least \<open>pool_size\<close> steps.
\<close>

definition output_shape :: "layer \<Rightarrow> nat list \<Rightarrow> error + nat list" where
  "output_shape l s =
     (case l of
        Convolution1D filters kernel_size act pad \<Rightarrow>
          (case s of
             [steps, channels] \<Rightarrow>
               (case pad of
                  Same \<Rightarrow> Inr [steps, filters]
                | Valid \<Rightarrow>
                    if steps < kernel_size then Inl ValueError
                    else Inr [steps - kernel_size + 1, filters])
           | _ \<Rightarrow> Inl ValueError)
      | MaxPooling1D pool_size \<Rightarrow>
          (case s of
             [steps, channels] \<Rightarrow>
               if pool_size = 0 \<or> steps < pool_size then Inl ValueError
               else Inr [(steps - pool_size) div pool_size + 1, channels]
           | _ \<Rightarrow> Inl ValueError)
      | Dropout rate \<Rightarrow> Inr s
      | Flatten \<Rightarrow> Inr [prod_list s]
      | Dense units act \<Rightarrow>
          (if s = [] then Inl ValueError else Inr (butlast s @ [units]))
      | InputLayer input_shape \<Rightarrow> Inl ValueError)"

text \<open>
  A symbolic tensor of the functional interface: the layer that produced it, the
  tensors that layer was called on, and its shape.
\<close>

datatype tensor = Tensor layer "tensor list" "nat list"

fun tensor_shape :: "tensor \<Rightarrow> nat list" where
  "tensor_shape (Tensor l ins s) = s"

definition Input :: "nat list \<Rightarrow> tensor" where
  "Input input_shape = Tensor (InputLayer input_shape) [] input_shape"

text \<open>Calling a layer on a tensor, \<open>layer(x)\<close>.\<close>

definition call :: "layer \<Rightarrow> tensor \<Rightarrow> error + tensor" where
  "call l x =
     (case output_shape l (tensor_shape x) of
        Inl e \<Rightarrow> Inl e
      | Inr s \<Rightarrow> Inr (Tensor l [x] s))"

record model =
  inputs :: tensor
  outputs :: tensor

text \<open>The layers of a model, from its input to its output.\<close>

fun layers_of :: "tensor \<Rightarrow> layer list" where
  "layers_of (Tensor l ins s) = concat (map layers_of ins) @ [l]"

definition model_layers :: "model \<Rightarrow> layer list" where
  "model_layers m = layers_of (outputs m)"

text \<open>
  The model-definition cell. \<open>np.shape(ds.train_data)[1]\<close> raises IndexError when the
  training data has fewer than two axes, and a layer call raises ValueError when the
  windows are too short for it; \<open>and_then\<close> passes the tensor of a call that returned
  to the statements after it and ends the cell at a call that raised. The keyword \<open>input_shape\<close> of the first convolution
  repeats the shape of the input tensor and adds no layer.
\<close>

definition and_then :: "error + 'a \<Rightarrow> ('a \<Rightarrow> error + 'b) \<Rightarrow> error + 'b" where
  "and_then r f = (case r of Inl e \<Rightarrow> Inl e | Inr x \<Rightarrow> f x)"

definition cnn :: "'l dataset \<Rightarrow> error + model" where
  "cnn ds =
     (let filter1 = 16; filter2 = 64; dense = 32; dropout = 1 / 10
      in case shape (train_data ds) of
           _ # len # _ \<Rightarrow>
             (let input_shape = [len, 1];
                  x_in = Input input_shape
              in and_then (call (Convolution1D 7 filter1 Relu Same) x_in) (\<lambda>c0.
                 and_then (call (MaxPooling1D 2) c0) (\<lambda>b0.
                 and_then (call (Dropout dropout) b0) (\<lambda>d0.
                 and_then (call (Convolution1D 3 filter2 Relu Same) d0) (\<lambda>c1.
                 and_then (call (MaxPooling1D 2) c1) (\<lambda>b1.
                 and_then (call (Dropout dropout) b1) (\<lambda>d1.
                 and_then (call Flatten d1) (\<lambda>f.
                 and_then (call (Dense dense Relu) f) (\<lambda>z0.
                 and_then (call (Dropout dropout) z0) (\<lambda>d2.
                 and_then (call (Dense 1 Sigmoid) d2) (\<lambda>y_out.
                   Inr \<lparr>inputs = x_in, outputs = y_out\<rparr>)))))))))))
         | _ \<Rightarrow> Inl IndexError)"

text \<open>A training set of two windows of 200 cadences, the length the notebook uses.\<close>

definition example_windows :: "int dataset" where
  "example_windows =
     \<lparr>train_data = \<lparr>shape = [2, 200, 1], data = replicate 400 (Finite 1)\<rparr>,
      train_labels = \<lparr>shape = [2], data = [0, 1]\<rparr>,
      test_data = \<lparr>shape = [0, 200, 1], data = []\<rparr>,
      test_labels = \<lparr>shape = [0], data = []\<rparr>,
      val_data = \<lparr>shape = [0, 200, 1], data = []\<rparr>,
      val_labels = \<lparr>shape = [0], data = []\<rparr>\<rparr>"

section \<open>Properties of the NaN filter\<close>

text \<open>
  C3. Given an example array whose first dimension has size 0, \<open>remove_nans\<close> returns
  the empty index list: it returns a value, not an exception.
\<close>

theorem remove_nans_zero_length:
  "shape input_data = 0 # rest \<Longrightarrow> remove_nans input_data = Inr []"
  by (simp add: remove_nans_def)

theorem remove_nans_zero_length_witness:
  "shape \<lparr>shape = [0, 200, 1], data = ([] :: npfloat list)\<rparr> = 0 # [200, 1]
   \<and> remove_nans \<lparr>shape = [0, 200, 1], data = []\<rparr> = Inr []"
  using remove_nans_zero_length [of "\<lparr>shape = [0, 200, 1], data = []\<rparr>" "[200, 1]"]
  by simp

text \<open>Selecting by the mask computed from the array itself is filtering.\<close>

lemma mask_filter: "map fst (filter snd (zip xs (map P xs))) = filter P xs"
  by (induction xs) auto

lemma no_nans_at_block:
  assumes "shape a = n # m # c # rest" and "k < n"
  shows "no_nans_at a k = Inr (\<forall>x \<in> set (block a k). \<not> isnan x)"
  using assms
  by (simp add: no_nans_at_def index_k_def mask_select_def np_isnan_def np_len_def
      block_def mask_filter Let_def filter_empty_conv)

lemma remove_nans_loop_filter:
  assumes "shape a = n # m # c # rest" and "\<forall>k \<in> set ks. k < n"
  shows "remove_nans_loop a ks idx
         = Inr (idx @ filter (\<lambda>k. \<forall>x \<in> set (block a k). \<not> isnan x) ks)"
  using assms(2)
proof (induction ks arbitrary: idx)
  case Nil
  then show ?case by simp
next
  case (Cons k ks)
  then show ?case by (simp add: no_nans_at_block [OF assms(1)])
qed

lemma remove_nans_filter:
  assumes "shape a = n # m # c # rest"
  shows "remove_nans a = Inr (filter (\<lambda>k. \<forall>x \<in> set (block a k). \<not> isnan x) [0..<n])"
  using remove_nans_loop_filter [OF assms, of "[0..<n]" "[]"] assms
  by (simp add: remove_nans_def)

lemma block_set_elem3:
  assumes "shape a = [n, m, c]" and "wf_ndarray a" and "k < n"
  shows "set (block a k) = {elem3 a k i j | i j. i < m \<and> j < c}"
proof -
  have len: "length (data a) = n * (m * c)"
    using assms(1,2) by (simp add: wf_ndarray_def)
  have "(k + 1) * (m * c) \<le> n * (m * c)"
    using assms(3) by (intro mult_le_mono1) simp
  then have fit: "k * (m * c) + m * c \<le> length (data a)"
    using len by (simp add: algebra_simps)
  have blk: "block a k = take (m * c) (drop (k * (m * c)) (data a))"
    using assms(1) by (simp add: block_def Let_def)
  have lblk: "length (block a k) = m * c"
    using fit by (simp add: blk)
  have nth_blk: "block a k ! p = data a ! (k * (m * c) + p)" if "p < m * c" for p
    using that fit by (simp add: blk)
  show ?thesis
  proof (intro set_eqI iffI)
    fix x assume "x \<in> set (block a k)"
    then obtain p where p: "p < m * c" "x = block a k ! p"
      using lblk by (metis in_set_conv_nth)
    then have c0: "0 < c" by (cases c) auto
    have "p div c < m" using p(1) c0 by (simp add: less_mult_imp_div_less mult.commute)
    moreover have "p mod c < c" using c0 by simp
    moreover have "x = elem3 a k (p div c) (p mod c)"
      using p nth_blk assms(1) by (simp add: elem3_def add.assoc)
    ultimately show "x \<in> {elem3 a k i j | i j. i < m \<and> j < c}" by blast
  next
    fix x assume "x \<in> {elem3 a k i j | i j. i < m \<and> j < c}"
    then obtain i j where ij: "i < m" "j < c" "x = elem3 a k i j" by blast
    have "i * c + j < (i + 1) * c" using ij(2) by simp
    also have "\<dots> \<le> m * c" using ij(1) by (intro mult_le_mono1) simp
    finally have p: "i * c + j < m * c" .
    have "x = block a k ! (i * c + j)"
      using ij(3) nth_blk [OF p] assms(1) by (simp add: elem3_def add.assoc)
    then show "x \<in> set (block a k)"
      using p lblk by (metis nth_mem)
  qed
qed

lemma block_length:
  assumes "shape a = n # rest" and "wf_ndarray a" and "k < n"
  shows "length (block a k) = prod_list rest"
proof -
  have "(k + 1) * prod_list rest \<le> n * prod_list rest"
    using assms(3) by (intro mult_le_mono1) simp
  then have "k * prod_list rest + prod_list rest \<le> length (data a)"
    using assms(1,2) by (simp add: wf_ndarray_def algebra_simps)
  then show ?thesis
    using assms(1) by (simp add: block_def Let_def)
qed

lemma take_drop_concat:
  assumes "\<forall>xs \<in> set xss. length xs = sz" and "i < length xss"
  shows "take sz (drop (i * sz) (concat xss)) = xss ! i"
  using assms
proof (induction xss arbitrary: i)
  case Nil
  then show ?case by simp
next
  case (Cons xs xss)
  show ?case
  proof (cases i)
    case 0
    then show ?thesis using Cons.prems by simp
  next
    case (Suc i')
    have "drop (i * sz) (xs @ concat xss) = drop (i' * sz) (concat xss)"
      using Cons.prems(1) Suc by simp
    then show ?thesis
      using Cons.IH [of i'] Cons.prems Suc by simp
  qed
qed

lemma take_idx_blocks:
  assumes "shape a = n # rest" and "\<forall>k \<in> set idx. k < n"
  shows "take_idx a idx
         = Inr \<lparr>shape = length idx # rest, data = concat (map (block a) idx)\<rparr>"
proof -
  have "block a = (\<lambda>k. take (prod_list rest) (drop (k * prod_list rest) (data a)))"
    using assms(1) by (intro ext) (simp add: block_def Let_def)
  then show ?thesis
    using assms by (simp add: take_idx_def list_all_iff Let_def)
qed

lemma block_take_idx:
  assumes "shape a = n # rest" and "wf_ndarray a" and "\<forall>k \<in> set idx. k < n"
    and "i < length idx"
  shows "block \<lparr>shape = length idx # rest, data = concat (map (block a) idx)\<rparr> i
         = block a (idx ! i)"
proof -
  have "\<forall>xs \<in> set (map (block a) idx). length xs = prod_list rest"
    using block_length [OF assms(1,2)] assms(3) by auto
  from take_drop_concat [OF this, of i] assms(4)
  show ?thesis by (simp add: block_def Let_def)
qed

lemma filter_upt_props:
  "sorted_wrt (<) (filter P [0..<n])" "\<forall>k \<in> set (filter P [0..<n]). k < n"
  "subseq (filter P [0..<n]) [0..<n]"
  by (simp_all add: sorted_wrt_filter)

text \<open>
  C1. For every well-formed three-dimensional example array of shape \<open>(n, m, c)\<close>,
  \<open>remove_nans\<close> returns an index list, and an index \<open>k\<close> is in it exactly when
  \<open>k < n\<close> and no element \<open>input_data[k, i, j]\<close> of the \<open>k\<close>-th slice is NaN: every
  index whose slice holds a NaN is left out, and every other index is kept.
\<close>

theorem remove_nans_sound_complete:
  assumes "shape input_data = [n, m, c]" and "wf_ndarray input_data"
  shows "\<exists>idx. remove_nans input_data = Inr idx
           \<and> (\<forall>k. (k \<in> set idx)
                 = (k < n \<and> (\<forall>i<m. \<forall>j<c. \<not> isnan (elem3 input_data k i j))))"
proof -
  let ?P = "\<lambda>k. \<forall>x \<in> set (block input_data k). \<not> isnan x"
  have r: "remove_nans input_data = Inr (filter ?P [0..<n])"
    by (rule remove_nans_filter [OF assms(1)])
  have "?P k = (\<forall>i<m. \<forall>j<c. \<not> isnan (elem3 input_data k i j))" if "k < n" for k
    unfolding block_set_elem3 [OF assms that] by blast
  then have "(k \<in> set (filter ?P [0..<n]))
             = (k < n \<and> (\<forall>i<m. \<forall>j<c. \<not> isnan (elem3 input_data k i j)))" for k
    by auto
  with r show ?thesis by blast
qed

text \<open>
  C8. For every three-dimensional example array with first dimension \<open>n\<close>, the index
  list returned by \<open>remove_nans\<close> is strictly increasing and each of its elements is
  below \<open>n\<close>. Hence indexing any array \<open>b\<close> with the same first dimension (the
  examples or the labels) by it succeeds and yields the selected blocks in their
  original relative order: a subsequence of the blocks of \<open>b\<close>.
\<close>

theorem remove_nans_increasing:
  assumes "shape input_data = [n, m, c]" and "shape (b :: 'b ndarray) = n # rest"
  shows "\<exists>idx. remove_nans input_data = Inr idx
           \<and> sorted_wrt (<) idx \<and> (\<forall>k \<in> set idx. k < n)
           \<and> subseq idx [0..<n]
           \<and> take_idx b idx
               = Inr \<lparr>shape = length idx # rest, data = concat (map (block b) idx)\<rparr>
           \<and> subseq (map (block b) idx) (map (block b) [0..<n])"
proof -
  let ?P = "\<lambda>k. \<forall>x \<in> set (block input_data k). \<not> isnan x"
  let ?idx = "filter ?P [0..<n]"
  have r: "remove_nans input_data = Inr ?idx"
    by (rule remove_nans_filter [OF assms(1)])
  have b: "\<forall>k \<in> set ?idx. k < n" by (rule filter_upt_props)
  have s: "subseq ?idx [0..<n]" by (rule filter_upt_props)
  have "subseq (map (block b) ?idx) (map (block b) [0..<n])"
    using s by (rule subseq_map)
  moreover have "sorted_wrt (<) ?idx" by (rule filter_upt_props)
  moreover note take_idx_blocks [OF assms(2) b] r b s
  ultimately show ?thesis by blast
qed

lemma selection_aligned:
  assumes "shape input_data = [n, m, c]" and "wf_ndarray input_data"
    and "shape (labels :: 'b ndarray) = n # rest" and "wf_ndarray labels"
  shows "\<exists>idx data' labels'.
           remove_nans input_data = Inr idx
           \<and> take_idx input_data idx = Inr data'
           \<and> take_idx labels idx = Inr labels'
           \<and> shape data' = length idx # [m, c]
           \<and> shape labels' = length idx # rest
           \<and> (\<forall>i < length idx.
                 block data' i = block input_data (idx ! i)
                 \<and> block labels' i = block labels (idx ! i))"
proof -
  let ?P = "\<lambda>k. \<forall>x \<in> set (block input_data k). \<not> isnan x"
  let ?idx = "filter ?P [0..<n]"
  have r: "remove_nans input_data = Inr ?idx"
    by (rule remove_nans_filter [OF assms(1)])
  have b: "\<forall>k \<in> set ?idx. k < n" by (rule filter_upt_props)
  note td = take_idx_blocks [OF assms(1) b]
  note tl = take_idx_blocks [OF assms(3) b]
  have "\<forall>i < length ?idx.
          block \<lparr>shape = length ?idx # [m, c], data = concat (map (block input_data) ?idx)\<rparr> i
            = block input_data (?idx ! i)
          \<and> block \<lparr>shape = length ?idx # rest, data = concat (map (block labels) ?idx)\<rparr> i
            = block labels (?idx ! i)"
    using block_take_idx [OF assms(1,2) b] block_take_idx [OF assms(3,4) b] by blast
  with r td tl show ?thesis by simp
qed

lemma selection_corresponds:
  assumes "split_ok d (l :: 'b ndarray)"
  shows "\<exists>idx d' l'. remove_nans d = Inr idx \<and> take_idx d idx = Inr d'
           \<and> take_idx l idx = Inr l' \<and> corresponds idx d l d' l'"
proof -
  from assms obtain n m c where d: "shape d = [n, m, c]"
    by (auto simp: split_ok_def length_Suc_conv numeral_3_eq_3)
  from assms d have l: "shape l = n # tl (shape l)"
    by (cases "shape l") (simp_all add: split_ok_def)
  from assms have w: "wf_ndarray d" "wf_ndarray l" by (simp_all add: split_ok_def)
  from selection_aligned [OF d w(1) l w(2)] d show ?thesis
    by (fastforce simp: corresponds_def list_all_iff)
qed

text \<open>
  C2. For every dataset whose splits each hold a well-formed three-dimensional example
  array and a well-formed label array of the same first dimension, the filtering cell
  succeeds, and in each split the new examples and the new labels are the selections
  by the index list that \<open>remove_nans\<close> returns for the examples of that split. So at
  every position \<open>i\<close> of a filtered split the example is the original example number
  \<open>idx[i]\<close> and the label is the original label number \<open>idx[i]\<close>: the label that
  accompanied that example.
\<close>

theorem remove_nans_alignment:
  assumes "split_ok (train_data ds) (train_labels ds)"
    and "split_ok (test_data ds) (test_labels ds)"
    and "split_ok (val_data ds) (val_labels ds)"
  shows "\<exists>idx_train idx_test idx_val ds'.
           remove_nans (train_data ds) = Inr idx_train
           \<and> remove_nans (test_data ds) = Inr idx_test
           \<and> remove_nans (val_data ds) = Inr idx_val
           \<and> filter_splits ds = Inr ds'
           \<and> corresponds idx_train (train_data ds) (train_labels ds)
                 (train_data ds') (train_labels ds')
           \<and> corresponds idx_test (test_data ds) (test_labels ds)
                 (test_data ds') (test_labels ds')
           \<and> corresponds idx_val (val_data ds) (val_labels ds)
                 (val_data ds') (val_labels ds')"
proof -
  from selection_corresponds [OF assms(1)] obtain i1 d1 l1 where
    1: "remove_nans (train_data ds) = Inr i1" "take_idx (train_data ds) i1 = Inr d1"
       "take_idx (train_labels ds) i1 = Inr l1"
       "corresponds i1 (train_data ds) (train_labels ds) d1 l1" by blast
  from selection_corresponds [OF assms(2)] obtain i2 d2 l2 where
    2: "remove_nans (test_data ds) = Inr i2" "take_idx (test_data ds) i2 = Inr d2"
       "take_idx (test_labels ds) i2 = Inr l2"
       "corresponds i2 (test_data ds) (test_labels ds) d2 l2" by blast
  from selection_corresponds [OF assms(3)] obtain i3 d3 l3 where
    3: "remove_nans (val_data ds) = Inr i3" "take_idx (val_data ds) i3 = Inr d3"
       "take_idx (val_labels ds) i3 = Inr l3"
       "corresponds i3 (val_data ds) (val_labels ds) d3 l3" by blast
  have "filter_splits ds
        = Inr (ds\<lparr>train_data := d1, train_labels := l1, test_data := d2, test_labels := l2,
                   val_data := d3, val_labels := l3\<rparr>)"
    by (simp add: filter_splits_def 1 2 3)
  with 1 2 3 show ?thesis by simp
qed

lemma example_remove_nans: "remove_nans example_data = Inr [0, 2]"
  by (simp add: example_data_def remove_nans_def no_nans_at_def index_k_def mask_select_def
      np_isnan_def np_len_def upt_rec)

theorem remove_nans_sound_complete_witness:
  "shape example_data = [3, 2, 1]
   \<and> wf_ndarray example_data
   \<and> (\<exists>idx. remove_nans example_data = Inr idx
         \<and> (\<forall>k. (k \<in> set idx)
               = (k < 3 \<and> (\<forall>i<2. \<forall>j<1. \<not> isnan (elem3 example_data k i j)))))
   \<and> remove_nans example_data = Inr [0, 2]"
proof -
  have h1: "shape example_data = [3, 2, 1]" by (simp add: example_data_def)
  have h2: "wf_ndarray example_data" by (simp add: wf_ndarray_def example_data_def)
  show ?thesis
    using h1 h2 remove_nans_sound_complete [OF h1 h2] example_remove_nans by blast
qed

theorem remove_nans_increasing_witness:
  "shape example_data = [3, 2, 1]
   \<and> shape example_labels = 3 # []
   \<and> (\<exists>idx. remove_nans example_data = Inr idx
         \<and> sorted_wrt (<) idx \<and> (\<forall>k \<in> set idx. k < 3)
         \<and> subseq idx [0..<3]
         \<and> take_idx example_labels idx
             = Inr \<lparr>shape = length idx # [], data = concat (map (block example_labels) idx)\<rparr>
         \<and> subseq (map (block example_labels) idx) (map (block example_labels) [0..<3]))
   \<and> remove_nans example_data = Inr [0, 2]
   \<and> take_idx example_labels [0, 2] = Inr \<lparr>shape = [2], data = [1, 1]\<rparr>"
proof -
  have h1: "shape example_data = [3, 2, 1]" by (simp add: example_data_def)
  have h2: "shape example_labels = 3 # []" by (simp add: example_labels_def)
  have t: "take_idx example_labels [0, 2] = Inr \<lparr>shape = [2], data = [1, 1]\<rparr>"
    by (simp add: take_idx_def example_labels_def)
  show ?thesis
    using h1 h2 remove_nans_increasing [OF h1 h2] example_remove_nans t by blast
qed

lemma example_filter_splits:
  "filter_splits example_dataset
   = Inr \<lparr>train_data = \<lparr>shape = [2, 2, 1], data = [Finite 1, Finite 2, Finite 5, Finite 6]\<rparr>,
          train_labels = \<lparr>shape = [2], data = [1, 1]\<rparr>,
          test_data = \<lparr>shape = [0, 2, 1], data = []\<rparr>,
          test_labels = \<lparr>shape = [0], data = []\<rparr>,
          val_data = \<lparr>shape = [1, 2, 1], data = [Finite 7, Finite 8]\<rparr>,
          val_labels = \<lparr>shape = [1], data = [0]\<rparr>\<rparr>"
  by (simp add: filter_splits_def example_dataset_def example_data_def example_labels_def
      remove_nans_def no_nans_at_def index_k_def mask_select_def np_isnan_def np_len_def
      take_idx_def upt_rec)

theorem remove_nans_alignment_witness:
  "split_ok (train_data example_dataset) (train_labels example_dataset)
   \<and> split_ok (test_data example_dataset) (test_labels example_dataset)
   \<and> split_ok (val_data example_dataset) (val_labels example_dataset)
   \<and> (\<exists>idx_train idx_test idx_val ds'.
         remove_nans (train_data example_dataset) = Inr idx_train
         \<and> remove_nans (test_data example_dataset) = Inr idx_test
         \<and> remove_nans (val_data example_dataset) = Inr idx_val
         \<and> filter_splits example_dataset = Inr ds'
         \<and> corresponds idx_train (train_data example_dataset) (train_labels example_dataset)
               (train_data ds') (train_labels ds')
         \<and> corresponds idx_test (test_data example_dataset) (test_labels example_dataset)
               (test_data ds') (test_labels ds')
         \<and> corresponds idx_val (val_data example_dataset) (val_labels example_dataset)
               (val_data ds') (val_labels ds'))
   \<and> (\<exists>ds'. filter_splits example_dataset = Inr ds'
         \<and> data (train_data ds') = [Finite 1, Finite 2, Finite 5, Finite 6]
         \<and> data (train_labels ds') = [1, 1])"
proof -
  have h1: "split_ok (train_data example_dataset) (train_labels example_dataset)"
    by (simp add: split_ok_def wf_ndarray_def example_dataset_def example_data_def
        example_labels_def)
  have h2: "split_ok (test_data example_dataset) (test_labels example_dataset)"
    by (simp add: split_ok_def wf_ndarray_def example_dataset_def)
  have h3: "split_ok (val_data example_dataset) (val_labels example_dataset)"
    by (simp add: split_ok_def wf_ndarray_def example_dataset_def)
  have e: "\<exists>ds'. filter_splits example_dataset = Inr ds'
         \<and> data (train_data ds') = [Finite 1, Finite 2, Finite 5, Finite 6]
         \<and> data (train_labels ds') = [1, 1]"
    by (simp add: example_filter_splits)
  show ?thesis
    using h1 h2 h3 e remove_nans_alignment [OF h1 h2 h3] by blast
qed

section \<open>Properties of the rounding to double precision\<close>

text \<open>The exponent computed by \<open>ilog2\<close> is the binade of its argument.\<close>

lemma bitlen_powi:
  assumes "0 < a"
  shows "(2::rat) powi (bitlen a - 1) \<le> of_int a" "of_int a < (2::rat) powi (bitlen a)"
proof -
  have b1: "1 \<le> bitlen a" using assms by (simp add: bitlen_alt_def)
  from bitlen_bounds [OF assms]
  have lo: "2 ^ nat (bitlen a - 1) \<le> a" and hi: "a < 2 ^ nat (bitlen a)" by simp_all
  have "(of_int (2 ^ nat (bitlen a - 1)) :: rat) \<le> of_int a"
    using lo by (simp only: of_int_le_iff)
  then show "(2::rat) powi (bitlen a - 1) \<le> of_int a"
    using b1 by (simp add: power_int_def)
  have "(of_int a :: rat) < of_int (2 ^ nat (bitlen a))"
    using hi by (simp only: of_int_less_iff)
  then show "of_int a < (2::rat) powi (bitlen a)"
    using b1 by (simp add: power_int_def)
qed

lemma ilog2_bounds:
  assumes "0 < q"
  shows "2 powi (ilog2 q) \<le> q" "q < 2 powi (ilog2 q + 1)"
proof -
  obtain a b where ab: "quotient_of q = (a, b)" by (cases "quotient_of q")
  have bpos: "0 < b" using ab by (rule quotient_of_denom_pos)
  have q: "q = of_int a / of_int b" using ab by (rule quotient_of_div)
  have apos: "0 < a" using assms bpos q by (simp add: zero_less_divide_iff)
  let ?d = "bitlen a - bitlen b"
  have B: "0 < (of_int b :: rat)" using bpos by simp
  have "q * of_int b < 2 powi (bitlen a)"
    using bitlen_powi(2) [OF apos] q B by simp
  also have "\<dots> = 2 powi (?d + 1) * 2 powi (bitlen b - 1)"
    by (simp flip: power_int_add)
  also have "\<dots> \<le> 2 powi (?d + 1) * of_int b"
    using bitlen_powi(1) [OF bpos] by (intro mult_left_mono) simp_all
  finally have up: "q < 2 powi (?d + 1)"
    using B by simp
  have "(2::rat) powi (?d - 1) * of_int b < 2 powi (?d - 1) * 2 powi (bitlen b)"
    using bitlen_powi(2) [OF bpos] by (intro mult_strict_left_mono) simp_all
  also have "\<dots> = 2 powi (bitlen a - 1)"
    by (simp flip: power_int_add)
  also have "\<dots> \<le> q * of_int b"
    using bitlen_powi(1) [OF apos] q B by simp
  finally have lo: "2 powi (?d - 1) < q"
    using B by simp
  have il: "ilog2 q = (if 2 powi ?d \<le> q then ?d else ?d - 1)"
    by (simp add: ilog2_def ab Let_def)
  show "2 powi (ilog2 q) \<le> q"
    using lo by (simp add: il)
  show "q < 2 powi (ilog2 q + 1)"
    using up by (simp add: il)
qed

lemma ilog2_le:
  assumes "0 < q" and "q < 2 powi e"
  shows "ilog2 q < e"
proof (rule ccontr)
  assume "\<not> ilog2 q < e"
  then have "e \<le> ilog2 q" by simp
  then have "(2::rat) powi e \<le> 2 powi (ilog2 q)"
    by (intro power_int_increasing) simp_all
  with ilog2_bounds(1) [OF assms(1)] assms(2) show False by simp
qed

lemma ilog2_ge:
  assumes "0 < q" and "2 powi e \<le> q"
  shows "e \<le> ilog2 q"
proof (rule ccontr)
  assume "\<not> e \<le> ilog2 q"
  then have "ilog2 q + 1 \<le> e" by simp
  then have "(2::rat) powi (ilog2 q + 1) \<le> 2 powi e"
    by (intro power_int_increasing) simp_all
  with ilog2_bounds(2) [OF assms(1)] assms(2) show False by simp
qed

lemma ilog2_eq:
  assumes "2 powi e \<le> q" and "q < 2 powi (e + 1)"
  shows "ilog2 q = e"
proof -
  have "0 < (2::rat) powi e" by simp
  then have "0 < q" using assms(1) by linarith
  from ilog2_le [OF this assms(2)] ilog2_ge [OF this assms(1)] show ?thesis by simp
qed

lemma rne_of_int: "rne (of_int k) = k"
  by (simp add: rne_def)

lemma rne_cases:
  "(rne q = \<lfloor>q\<rfloor> \<and> q - of_int \<lfloor>q\<rfloor> \<le> 1 / 2)
   \<or> (rne q = \<lfloor>q\<rfloor> + 1 \<and> 1 / 2 \<le> q - of_int \<lfloor>q\<rfloor>)"
proof -
  let ?r = "q - of_int \<lfloor>q\<rfloor>"
  consider "?r < 1 / 2" | "1 / 2 < ?r" | "?r = 1 / 2" by linarith
  then show ?thesis
  proof cases
    case 1
    then show ?thesis by (simp add: rne_def Let_def)
  next
    case 2
    then show ?thesis by (simp add: rne_def Let_def)
  next
    case 3
    then show ?thesis by (simp add: rne_def Let_def)
  qed
qed

lemma rne_bounds: "of_int (rne q) \<le> q + 1 / 2" "q - 1 / 2 \<le> of_int (rne q)"
proof -
  have a: "of_int \<lfloor>q\<rfloor> \<le> q" and b: "q < of_int \<lfloor>q\<rfloor> + 1" by linarith+
  show "of_int (rne q) \<le> q + 1 / 2"
    using rne_cases [of q] a b
    by (elim disjE conjE; simp only: of_int_add of_int_1; linarith)
  show "q - 1 / 2 \<le> of_int (rne q)"
    using rne_cases [of q] a b
    by (elim disjE conjE; simp only: of_int_add of_int_1; linarith)
qed

lemma rne_mono:
  assumes "p \<le> q"
  shows "rne p \<le> rne q"
proof -
  have fl: "\<lfloor>p\<rfloor> \<le> \<lfloor>q\<rfloor>" using assms by (rule floor_mono)
  show ?thesis
  proof (cases "\<lfloor>p\<rfloor> = \<lfloor>q\<rfloor>")
    case True
    then have "p - of_int \<lfloor>p\<rfloor> \<le> q - of_int \<lfloor>q\<rfloor>" using assms by simp
    then show ?thesis using True by (auto simp: rne_def Let_def)
  next
    case False
    then have lt: "\<lfloor>p\<rfloor> + 1 \<le> \<lfloor>q\<rfloor>" using fl by simp
    have "rne p \<le> \<lfloor>p\<rfloor> + 1" by (auto simp: rne_def Let_def)
    moreover have "\<lfloor>q\<rfloor> \<le> rne q" by (auto simp: rne_def Let_def)
    ultimately show ?thesis using lt by linarith
  qed
qed

lemma round_float64_pos:
  assumes "0 < q"
  shows "round_float64 q =
           (let u = 2 powi (max (ilog2 q) (- 1022) - 52);
                r = of_int (rne (q / u)) * u
            in if 2 ^ 1024 \<le> r then PosInf else Finite r)"
proof -
  let ?u = "(2::rat) powi (max (ilog2 q) (- 1022) - 52)"
  have u: "0 < ?u" by simp
  have "0 \<le> q / ?u" using assms u by simp
  then have "rne 0 \<le> rne (q / ?u)" by (rule rne_mono)
  then have "0 \<le> rne (q / ?u)" by (simp add: rne_def)
  then have "0 \<le> (of_int (rne (q / ?u)) :: rat) * ?u" by simp
  moreover have "- (2 ^ 1024) < (0::rat)" by simp
  ultimately have "\<not> (of_int (rne (q / ?u)) :: rat) * ?u \<le> - (2 ^ 1024)" by linarith
  then show ?thesis
    using assms by (simp add: round_float64_def Let_def)
qed

lemma round_float64_exact:
  assumes "0 < r" and "r = of_int m * 2 powi (max (ilog2 r) (- 1022) - 52)"
    and "r < 2 ^ 1024"
  shows "round_float64 r = Finite r"
proof -
  let ?u = "(2::rat) powi (max (ilog2 r) (- 1022) - 52)"
  have u: "?u \<noteq> 0" by simp
  have "r / ?u = of_int m" using assms(2) u by (metis nonzero_mult_div_cancel_right)
  then have "of_int (rne (r / ?u)) * ?u = r"
    using assms(2) by (simp add: rne_of_int)
  then show ?thesis
    using assms(3) by (simp add: round_float64_pos [OF assms(1)] Let_def)
qed

lemma powi2_mult: "a + b = c \<Longrightarrow> (2::rat) powi a * 2 powi b = 2 powi c"
  by (auto simp: power_int_add)

lemma powi_of_int: "0 \<le> j \<Longrightarrow> (2::rat) powi j = of_int (2 ^ nat j)"
  by (simp add: power_int_def)

lemma round_float64_representable:
  assumes "0 \<le> k" and "k \<le> 2 ^ 53" and "- 1022 \<le> e" and "e \<le> 1022"
  shows "round_float64 (of_int k * 2 powi (e - 52)) = Finite (of_int k * 2 powi (e - 52))"
proof (cases "k = 0")
  case True
  then show ?thesis by (simp add: round_float64_def)
next
  case False
  define r :: rat where "r = of_int k * 2 powi (e - 52)"
  have kpos: "0 < k" using False assms(1) by simp
  have rpos: "0 < r" using kpos by (simp add: r_def)
  have "(of_int k :: rat) \<le> of_int (2 ^ 53)" using assms(2) by (simp only: of_int_le_iff)
  then have k53: "(of_int k :: rat) \<le> 2 powi 53" by simp
  have "r \<le> 2 powi 53 * 2 powi (e - 52)"
    unfolding r_def using k53 by (intro mult_right_mono) simp_all
  also have "\<dots> = 2 powi (e + 1)" by (rule powi2_mult) simp
  finally have rle: "r \<le> 2 powi (e + 1)" .
  have "(2::rat) powi (e + 1) \<le> 2 powi 1023"
    using assms(4) by (intro power_int_increasing) simp_all
  also have "\<dots> < 2 powi 1024" by (intro power_int_strict_increasing) simp_all
  finally have "(2::rat) powi (e + 1) < 2 ^ 1024" by simp
  with rle have rlt: "r < 2 ^ 1024" by linarith
  let ?E = "max (ilog2 r) (- 1022)"
  have "\<exists>m. r = of_int m * 2 powi (?E - 52)"
  proof (cases "k = 2 ^ 53")
    case True
    then have "(of_int k :: rat) = 2 powi 53" by simp
    then have "r = 2 powi 53 * 2 powi (e - 52)" by (simp add: r_def)
    also have "\<dots> = 2 powi (e + 1)" by (rule powi2_mult) simp
    finally have r2: "r = 2 powi (e + 1)" .
    have "r < 2 powi (e + 1 + 1)"
      unfolding r2 by (intro power_int_strict_increasing) simp_all
    with r2 have "ilog2 r = e + 1" by (intro ilog2_eq) simp_all
    then have E: "?E = e + 1" using assms(3) by simp
    have "r = 2 powi 52 * 2 powi (e + 1 - 52)"
      unfolding r2 by (rule powi2_mult [symmetric]) simp
    then have "r = of_int (2 ^ 52) * 2 powi (?E - 52)"
      unfolding E by simp
    then show ?thesis ..
  next
    case False
    then have "k < 2 ^ 53" using assms(2) by simp
    then have "(of_int k :: rat) < of_int (2 ^ 53)" by (simp only: of_int_less_iff)
    then have "(of_int k :: rat) < 2 powi 53" by simp
    then have "r < 2 powi 53 * 2 powi (e - 52)"
      unfolding r_def by (intro mult_strict_right_mono) simp_all
    also have "\<dots> = 2 powi (e + 1)" by (rule powi2_mult) simp
    finally have "ilog2 r < e + 1" by (rule ilog2_le [OF rpos])
    then have E: "?E \<le> e" using assms(3) by simp
    have "(2::rat) powi (e - 52) = 2 powi (e - ?E) * 2 powi (?E - 52)"
      by (rule powi2_mult [symmetric]) simp
    also have "(2::rat) powi (e - ?E) = of_int (2 ^ nat (e - ?E))"
      using E by (intro powi_of_int) simp
    finally have "r = of_int (k * 2 ^ nat (e - ?E)) * 2 powi (?E - 52)"
      by (simp add: r_def)
    then show ?thesis ..
  qed
  then obtain m where "r = of_int m * 2 powi (?E - 52)" ..
  from round_float64_exact [OF rpos this rlt] show ?thesis by (simp add: r_def)
qed

lemma round_float64_of_int:
  assumes "0 \<le> n" and "n \<le> 2 ^ 53"
  shows "round_float64 (of_int n) = Finite (of_int n)"
  using round_float64_representable [OF assms, of 52] by simp

lemma round_float64_form:
  assumes "0 < q" and "ilog2 q \<le> 1022"
  defines "E \<equiv> max (ilog2 q) (- 1022)"
  defines "K \<equiv> rne (q / 2 powi (E - 52))"
  shows "0 \<le> K" "K \<le> 2 ^ 53" "round_float64 q = Finite (of_int K * 2 powi (E - 52))"
proof -
  let ?u = "(2::rat) powi (E - 52)"
  have u: "0 < ?u" by simp
  have "0 \<le> q / ?u" using assms(1) u by simp
  then have "rne 0 \<le> K" unfolding K_def by (rule rne_mono)
  then show K0: "0 \<le> K" by (simp add: rne_def)
  have "q < 2 powi (ilog2 q + 1)" by (rule ilog2_bounds(2) [OF assms(1)])
  also have "\<dots> \<le> 2 powi (E + 1)"
    unfolding E_def by (intro power_int_increasing) simp_all
  also have "\<dots> = 2 powi 53 * ?u" by (rule powi2_mult [symmetric]) simp
  finally have "q / ?u \<le> 2 powi 53" using u by (simp add: pos_divide_le_eq)
  then have "q / ?u \<le> of_int (2 ^ 53)" by simp
  then have "K \<le> rne (of_int (2 ^ 53))" unfolding K_def by (rule rne_mono)
  then show K53: "K \<le> 2 ^ 53" by (simp only: rne_of_int)
  then have "(of_int K :: rat) \<le> of_int (2 ^ 53)" by (simp only: of_int_le_iff)
  then have "(of_int K :: rat) \<le> 2 powi 53" by simp
  then have "of_int K * ?u \<le> 2 powi 53 * ?u" by (intro mult_right_mono) simp_all
  also have "\<dots> = 2 powi (E + 1)" by (rule powi2_mult) simp
  also have "\<dots> \<le> 2 powi 1023"
    unfolding E_def using assms(2) by (intro power_int_increasing) simp_all
  also have "\<dots> < 2 powi 1024" by (intro power_int_strict_increasing) simp_all
  finally have "of_int K * ?u < 2 ^ 1024" by simp
  then show "round_float64 q = Finite (of_int K * ?u)"
    unfolding round_float64_pos [OF assms(1)] K_def E_def Let_def by simp
qed

lemma round_float64_idem:
  assumes "0 \<le> q" and "q \<le> 1" and "round_float64 q = Finite x"
  shows "round_float64 x = Finite x"
proof (cases "q = 0")
  case True
  then show ?thesis using assms(3) by (simp add: round_float64_def)
next
  case False
  then have qpos: "0 < q" using assms(1) by simp
  have "q < 2 powi 1" using assms(2) by simp
  then have "ilog2 q < 1" by (rule ilog2_le [OF qpos])
  then have il: "ilog2 q \<le> 1022" by simp
  let ?E = "max (ilog2 q) (- 1022)"
  let ?K = "rne (q / 2 powi (?E - 52))"
  note f = round_float64_form [OF qpos il]
  have x: "x = of_int ?K * 2 powi (?E - 52)" using f(3) assms(3) by simp
  have "?E \<le> 1022" using il by simp
  from round_float64_representable [OF f(1) f(2) _ this]
  show ?thesis unfolding x by simp
qed

lemma rne_half_below: "rne (18014398509481983 / 2) = 9007199254740992"
  by code_simp

lemma rne_quarter_above: "rne (18014398509481985 / 4) = 4503599627370496"
  by code_simp

lemma round_float64_near_one:
  assumes "1 - 2 powi (- 54) \<le> s" and "s \<le> 1 + 2 powi (- 54)"
  shows "round_float64 s = Finite 1"
proof (cases "s < 1")
  case True
  have lo: "18014398509481983 / 18014398509481984 \<le> s" using assms(1) by simp
  then have spos: "0 < s" by linarith
  have "2 powi (- 1) \<le> s" using lo by simp
  moreover have "s < 2 powi (- 1 + 1)" using True by simp
  ultimately have il: "ilog2 s = - 1" by (rule ilog2_eq)
  have u: "(2::rat) powi (max (- 1) (- 1022) - 52) = 1 / 9007199254740992" by simp
  have "18014398509481983 / 2 \<le> s * 9007199254740992" using lo by simp
  then have "rne (18014398509481983 / 2) \<le> rne (s * 9007199254740992)" by (rule rne_mono)
  then have a: "9007199254740992 \<le> rne (s * 9007199254740992)"
    by (simp only: rne_half_below)
  have "s * 9007199254740992 \<le> of_int 9007199254740992" using True by simp
  then have "rne (s * 9007199254740992) \<le> rne (of_int 9007199254740992)" by (rule rne_mono)
  then have "rne (s * 9007199254740992) \<le> 9007199254740992" by (simp only: rne_of_int)
  with a have "rne (s * 9007199254740992) = 9007199254740992" by simp
  then show ?thesis
    by (simp add: round_float64_pos [OF spos] il u Let_def)
next
  case False
  then have s1: "1 \<le> s" by simp
  then have spos: "0 < s" by linarith
  have hi: "s \<le> 18014398509481985 / 18014398509481984" using assms(2) by simp
  have "2 powi 0 \<le> s" using s1 by simp
  moreover have "s < 2 powi (0 + 1)" using hi by simp
  ultimately have il: "ilog2 s = 0" by (rule ilog2_eq)
  have u: "(2::rat) powi (max 0 (- 1022) - 52) = 1 / 4503599627370496" by simp
  have "of_int 4503599627370496 \<le> s * 4503599627370496" using s1 by simp
  then have "rne (of_int 4503599627370496) \<le> rne (s * 4503599627370496)" by (rule rne_mono)
  then have a: "4503599627370496 \<le> rne (s * 4503599627370496)" by (simp only: rne_of_int)
  have "s * 4503599627370496 \<le> 18014398509481985 / 4" using hi by simp
  then have "rne (s * 4503599627370496) \<le> rne (18014398509481985 / 4)" by (rule rne_mono)
  then have "rne (s * 4503599627370496) \<le> 4503599627370496"
    by (simp only: rne_quarter_above)
  with a have "rne (s * 4503599627370496) = 4503599627370496" by simp
  then show ?thesis
    by (simp add: round_float64_pos [OF spos] il u Let_def)
qed

lemma round_float64_complement:
  assumes "1 / 2 < q" and "q < 1"
  shows "\<exists>x y. round_float64 q = Finite x \<and> round_float64 (1 - q) = Finite y
           \<and> 1 - 2 powi (- 54) \<le> x + y \<and> x + y \<le> 1 + 2 powi (- 54)"
proof -
  define y where "y = 1 - q"
  have qpos: "0 < q" and ypos: "0 < y" using assms by (simp_all add: y_def)
  \<comment> \<open>the binade of \<open>q\<close>\<close>
  have "2 powi (- 1) \<le> q" using assms(1) by simp
  moreover have "q < 2 powi (- 1 + 1)" using assms(2) by simp
  ultimately have ilq: "ilog2 q = - 1" by (rule ilog2_eq)
  define K where "K = rne (q * 9007199254740992)"
  have "round_float64 q = Finite (of_int (rne (q / 2 powi (max (ilog2 q) (- 1022) - 52)))
          * 2 powi (max (ilog2 q) (- 1022) - 52))"
    by (rule round_float64_form(3) [OF qpos]) (simp add: ilq)
  then have rq: "round_float64 q = Finite (of_int K / 9007199254740992)"
    by (simp add: ilq K_def)
  have K1: "of_int K \<le> q * 9007199254740992 + 1 / 2"
    and K2: "q * 9007199254740992 - 1 / 2 \<le> of_int K"
    unfolding K_def by (rule rne_bounds)+
  \<comment> \<open>the binade of \<open>1 - q\<close> is finer\<close>
  have "y < 2 powi (- 1)" using assms(1) by (simp add: y_def)
  then have ily: "ilog2 y < - 1" by (rule ilog2_le [OF ypos])
  define E where "E = max (ilog2 y) (- 1022)"
  define u :: rat where "u = 2 powi (E - 52)"
  define M where "M = rne (y / u)"
  define P :: int where "P = 2 ^ nat (- 2 - E)"
  have E2: "E \<le> - 2" using ily by (simp add: E_def)
  have upos: "0 < u" by (simp add: u_def)
  have Ppos: "0 < P" by (simp add: P_def)
  have ry: "round_float64 y = Finite (of_int M * u)"
    unfolding M_def u_def E_def by (rule round_float64_form(3) [OF ypos]) (use ily in simp)
  have "(2::rat) powi (- 2 - E) = of_int P"
    unfolding P_def using E2 by (intro powi_of_int) simp
  moreover have "(2::rat) powi (- 2 - E) * 2 powi (E - 52) = 2 powi (- 54)"
    by (rule powi2_mult) simp
  ultimately have Pu: "of_int P * u = 1 / 18014398509481984"
    by (simp add: u_def)
  then have u_eq: "u = 1 / (18014398509481984 * of_int P)"
    using Ppos by (simp add: field_simps)
  have yu: "y / u = y * 18014398509481984 * of_int P"
    by (simp add: u_eq)
  have Pr: "0 \<le> (of_int P :: rat)" using Ppos by simp
  \<comment> \<open>the rounded complement lies within half a unit of \<open>1 - x\<close>\<close>
  have "18014398509481984 - 2 * of_int K - 1 \<le> y * 18014398509481984"
    using K2 by (simp add: y_def algebra_simps)
  then have "(18014398509481984 - 2 * of_int K - 1) * of_int P \<le> y / u"
    unfolding yu using Pr by (rule mult_right_mono)
  then have "of_int ((18014398509481984 - 2 * K - 1) * P) \<le> y / u" by simp
  then have "rne (of_int ((18014398509481984 - 2 * K - 1) * P)) \<le> M"
    unfolding M_def by (rule rne_mono)
  then have "(18014398509481984 - 2 * K - 1) * P \<le> M" by (simp only: rne_of_int)
  then have "(of_int ((18014398509481984 - 2 * K - 1) * P) :: rat) \<le> of_int M"
    by (simp only: of_int_le_iff)
  then have "of_int ((18014398509481984 - 2 * K - 1) * P) * u \<le> of_int M * u"
    using upos by (intro mult_right_mono) simp_all
  then have "(18014398509481984 - 2 * of_int K - 1) * (of_int P * u) \<le> of_int M * u"
    by (simp add: mult.assoc)
  then have lo: "(18014398509481984 - 2 * of_int K - 1) / 18014398509481984 \<le> of_int M * u"
    unfolding Pu by simp
  have "y * 18014398509481984 \<le> 18014398509481984 - 2 * of_int K + 1"
    using K1 by (simp add: y_def algebra_simps)
  then have "y / u \<le> (18014398509481984 - 2 * of_int K + 1) * of_int P"
    unfolding yu using Pr by (rule mult_right_mono)
  then have "y / u \<le> of_int ((18014398509481984 - 2 * K + 1) * P)" by simp
  then have "M \<le> rne (of_int ((18014398509481984 - 2 * K + 1) * P))"
    unfolding M_def by (rule rne_mono)
  then have "M \<le> (18014398509481984 - 2 * K + 1) * P" by (simp only: rne_of_int)
  then have "(of_int M :: rat) \<le> of_int ((18014398509481984 - 2 * K + 1) * P)"
    by (simp only: of_int_le_iff)
  then have "of_int M * u \<le> of_int ((18014398509481984 - 2 * K + 1) * P) * u"
    using upos by (intro mult_right_mono) simp_all
  then have "of_int M * u \<le> (18014398509481984 - 2 * of_int K + 1) * (of_int P * u)"
    by (simp add: mult.assoc)
  then have hi: "of_int M * u \<le> (18014398509481984 - 2 * of_int K + 1) / 18014398509481984"
    unfolding Pu by simp
  have "1 - 2 powi (- 54) \<le> of_int K / 9007199254740992 + of_int M * u"
    using lo by (simp add: field_simps)
  moreover have "of_int K / 9007199254740992 + of_int M * u \<le> 1 + 2 powi (- 54)"
    using hi by (simp add: field_simps)
  ultimately show ?thesis
    using rq ry unfolding y_def by blast
qed

lemma round_float64_binade:
  assumes "2 powi e \<le> q" and "q < 2 powi (e + 1)" and "- 1022 \<le> e" and "e \<le> 1022"
  shows "round_float64 q = Finite (of_int (rne (q / 2 powi (e - 52))) * 2 powi (e - 52))"
proof -
  have il: "ilog2 q = e" using assms(1,2) by (rule ilog2_eq)
  have "0 < (2::rat) powi e" by simp
  then have qpos: "0 < q" using assms(1) by linarith
  have "ilog2 q \<le> 1022" using il assms(4) by simp
  from round_float64_form(3) [OF qpos this] show ?thesis
    using assms(3) by (simp add: il)
qed

lemma rne_third: "rne (18014398509481984 / 3) = 6004799503160661"
  by code_simp

lemma round_float64_small:
  "round_float64 0 = Finite 0"
  "round_float64 1 = Finite 1"
  "round_float64 2 = Finite 2"
  "round_float64 3 = Finite 3"
  using round_float64_of_int [of 0] round_float64_of_int [of 1]
    round_float64_of_int [of 2] round_float64_of_int [of 3]
  by simp_all

lemma round_float64_half: "round_float64 (1 / 2) = Finite (1 / 2)"
  using round_float64_representable [of 1 51] by simp

lemma round_float64_third:
  "round_float64 (1 / 3) = Finite (6004799503160661 / 18014398509481984)"
  using round_float64_binade [of "- 2" "1 / 3"] by (simp add: rne_third)

lemma round_float64_two_thirds:
  "round_float64 (2 / 3) = Finite (6004799503160661 / 9007199254740992)"
  using round_float64_binade [of "- 1" "2 / 3"] by (simp add: rne_third)

text \<open>
  The two quotients \<open>a / n\<close> and \<open>b / n\<close> with \<open>a + b = n\<close>, each rounded to a double, add
  up to a number that rounds to 1: the complement of the larger one lies in a finer
  binade, so its rounding error cannot exceed that of the larger one.
\<close>

lemma round_float64_sum_one:
  assumes "0 \<le> q" and "q \<le> 1"
  shows "\<exists>x y. round_float64 q = Finite x \<and> round_float64 (1 - q) = Finite y
           \<and> 1 - 2 powi (- 54) \<le> x + y \<and> x + y \<le> 1 + 2 powi (- 54)
           \<and> round_float64 (x + y) = Finite 1"
proof -
  have one: "round_float64 1 = Finite 1"
    using round_float64_of_int [of 1] by simp
  have zero: "round_float64 0 = Finite 0"
    by (simp add: round_float64_def)
  have half: "round_float64 (1 / 2) = Finite (1 / 2)"
    using round_float64_representable [of 1 51] by simp
  have near: "\<exists>x y. round_float64 q = Finite x \<and> round_float64 (1 - q) = Finite y
           \<and> 1 - 2 powi (- 54) \<le> x + y \<and> x + y \<le> 1 + 2 powi (- 54)"
  proof -
    consider "q = 0" | "q = 1" | "q = 1 / 2" | "1 / 2 < q" "q < 1" | "0 < q" "q < 1 / 2"
      using assms by linarith
    then show ?thesis
    proof cases
      case 1
      have "round_float64 0 = Finite 0 \<and> round_float64 (1 - 0) = Finite 1
          \<and> 1 - 2 powi (- 54) \<le> (0 + 1 :: rat) \<and> (0 + 1 :: rat) \<le> 1 + 2 powi (- 54)"
        using one zero by simp
      then show ?thesis unfolding 1 by blast
    next
      case 2
      have "round_float64 1 = Finite 1 \<and> round_float64 (1 - 1) = Finite 0
          \<and> 1 - 2 powi (- 54) \<le> (1 + 0 :: rat) \<and> (1 + 0 :: rat) \<le> 1 + 2 powi (- 54)"
        using one zero by simp
      then show ?thesis unfolding 2 by blast
    next
      case 3
      have "round_float64 (1 / 2) = Finite (1 / 2)
          \<and> round_float64 (1 - 1 / 2) = Finite (1 / 2)
          \<and> 1 - 2 powi (- 54) \<le> (1 / 2 + 1 / 2 :: rat)
          \<and> (1 / 2 + 1 / 2 :: rat) \<le> 1 + 2 powi (- 54)"
        using half by simp
      then show ?thesis unfolding 3 by blast
    next
      case 4
      from round_float64_complement [OF 4] show ?thesis .
    next
      case 5
      then have "1 / 2 < 1 - q" "1 - q < 1" by simp_all
      from round_float64_complement [OF this] obtain x y where
        "round_float64 (1 - q) = Finite x" "round_float64 q = Finite y"
        "1 - 2 powi (- 54) \<le> x + y" "x + y \<le> 1 + 2 powi (- 54)" by auto
      then have "round_float64 q = Finite y \<and> round_float64 (1 - q) = Finite x
          \<and> 1 - 2 powi (- 54) \<le> y + x \<and> y + x \<le> 1 + 2 powi (- 54)"
        by (simp add: add.commute)
      then show ?thesis by blast
    qed
  qed
  then obtain x y where xy: "round_float64 q = Finite x" "round_float64 (1 - q) = Finite y"
    "1 - 2 powi (- 54) \<le> x + y" "x + y \<le> 1 + 2 powi (- 54)" by blast
  from round_float64_near_one [OF xy(3,4)] xy show ?thesis by blast
qed

lemma astype_float_exact:
  assumes "0 \<le> n" and "n \<le> 2 ^ 53"
  shows "astype_float n = Finite (of_int n)"
  unfolding astype_float_def using assms by (rule round_float64_of_int)

lemma np_sum_pair: "np_sum [x, y] = fadd (fadd (Finite 0) x) y"
  by (simp add: np_sum_def)

lemma normalized_row_sum:
  assumes "0 \<le> a" and "0 \<le> b" and "0 < a + b" and "a + b \<le> 2 ^ 53"
  defines "row \<equiv> [astype_float a, astype_float b]"
  shows "\<exists>x y. map (\<lambda>v. fdiv v (np_sum row)) row = [Finite x, Finite y]
           \<and> \<bar>x + y - 1\<bar> \<le> 1 / 2 ^ 54
           \<and> np_sum [Finite x, Finite y] = Finite 1"
proof -
  have fa: "astype_float a = Finite (of_int a)"
    using assms by (intro astype_float_exact) simp_all
  have fb: "astype_float b = Finite (of_int b)"
    using assms by (intro astype_float_exact) simp_all
  have ra: "round_float64 (of_int a) = Finite (of_int a)"
    using assms by (intro round_float64_of_int) simp_all
  have "round_float64 (of_int (a + b)) = Finite (of_int (a + b))"
    using assms by (intro round_float64_of_int) simp_all
  then have s: "np_sum row = Finite (of_int a + of_int b)"
    by (simp add: row_def np_sum_pair fa fb ra)
  define n :: rat where "n = of_int a + of_int b"
  have "(0::rat) < of_int (a + b)" using assms(3) by (simp only: of_int_0_less_iff)
  then have npos: "0 < n" by (simp add: n_def)
  define q where "q = of_int a / n"
  have q0: "0 \<le> q" using assms(1) npos by (simp add: q_def)
  have "(of_int a :: rat) \<le> n" using assms(2) by (simp add: n_def)
  then have q1: "q \<le> 1" using npos by (simp add: q_def)
  have qc: "of_int b / n = 1 - q" using npos by (simp add: q_def n_def field_simps)
  from round_float64_sum_one [OF q0 q1] obtain x y where
    x: "round_float64 q = Finite x" and y: "round_float64 (1 - q) = Finite y"
    and lo: "1 - 2 powi (- 54) \<le> x + y" and hi: "x + y \<le> 1 + 2 powi (- 54)"
    and xy: "round_float64 (x + y) = Finite 1" by blast
  have xi: "round_float64 x = Finite x" by (rule round_float64_idem [OF q0 q1 x])
  have da: "fdiv (Finite (of_int a)) (Finite n) = Finite x"
    using npos x by (simp add: q_def)
  have db: "fdiv (Finite (of_int b)) (Finite n) = Finite y"
    using npos y qc by simp
  have sn: "np_sum row = Finite n" by (simp only: s n_def)
  have m: "map (\<lambda>v. fdiv v (np_sum row)) row = [Finite x, Finite y]"
    unfolding sn unfolding row_def fa fb by (simp only: list.map da db)
  have t: "np_sum [Finite x, Finite y] = Finite 1"
    by (simp add: np_sum_pair xi xy)
  have c: "\<bar>x + y - 1\<bar> \<le> 1 / 2 ^ 54"
  proof -
    have p: "(2::rat) powi (- 54) = 1 / 2 ^ 54" by (simp add: power_int_minus_divide)
    show ?thesis using lo hi unfolding p by (simp only: abs_le_iff) linarith
  qed
  show ?thesis
    by (rule exI [where x = x], rule exI [where x = y], intro conjI) (fact m, fact c, fact t)
qed

section \<open>Properties of the confusion-matrix helper\<close>

lemma zip_as_map_nth:
  assumes "length xs = length ys"
  shows "zip xs ys = map (\<lambda>k. (xs ! k, ys ! k)) [0..<length xs]"
  using assms by (intro nth_equalityI) simp_all

lemma pair_count_class_count:
  assumes "length y_true = length y_pred"
  shows "pair_count y_true y_pred i j = class_count y_true y_pred i j"
  unfolding pair_count_def class_count_def zip_as_map_nth [OF assms]
  by (simp add: filter_map comp_def)

lemma pair_count_nonneg: "0 \<le> pair_count y_true y_pred i j"
  by (simp add: pair_count_def)

lemma pair_count_sum:
  assumes "length y_true = length y_pred" and "set y_pred \<subseteq> {0, 1}"
  shows "pair_count y_true y_pred i 0 + pair_count y_true y_pred i 1
         = int (count_list y_true i)"
  using assms
proof (induction y_true y_pred rule: list_induct2)
  case Nil
  then show ?case by (simp add: pair_count_def)
next
  case (Cons t ts p ps)
  then have "p = 0 \<or> p = 1" by simp
  moreover have "pair_count ts ps i 0 + pair_count ts ps i 1 = int (count_list ts i)"
    using Cons by simp
  ultimately show ?case by (auto simp: pair_count_def)
qed

lemma pair_count_absent:
  assumes "i \<notin> set y_true"
  shows "pair_count y_true y_pred i j = 0"
proof -
  have "filter (\<lambda>(t, p). t = i \<and> p = j) (zip y_true y_pred) = []"
    using assms by (auto simp: filter_empty_conv dest: set_zip_leftD)
  then show ?thesis by (simp add: pair_count_def)
qed

lemma binarize_range: "set (map binarize ps) \<subseteq> {0, 1}"
  by (auto simp: binarize_def)

lemma thresholded_binarize: "thresholded ps = map binarize ps"
  by (simp add: thresholded_def binarize_def)

lemma confusion_matrix_binary:
  assumes "length y_true = length y_pred"
    and "0 \<in> set y_true \<or> 1 \<in> set y_true"
  shows "confusion_matrix y_true y_pred [0, 1]
         = Inr [[pair_count y_true y_pred 0 0, pair_count y_true y_pred 0 1],
                [pair_count y_true y_pred 1 0, pair_count y_true y_pred 1 1]]"
proof -
  have "y_true \<noteq> []" using assms(2) by auto
  then have ne: "y_pred \<noteq> []" using assms(1) by auto
  have "list_ex (\<lambda>t. t \<in> set [0, 1]) y_true"
    using assms(2) by (auto simp: list_ex_iff)
  then show ?thesis using assms(1) ne by (simp add: confusion_matrix_def)
qed

lemma confusion_matrix_error:
  assumes "length y_true \<noteq> length y_pred \<or> (0 \<notin> set y_true \<and> 1 \<notin> set y_true)"
  shows "confusion_matrix y_true y_pred [0, 1] = Inl ValueError"
  using assms by (auto simp: confusion_matrix_def list_ex_iff)

lemma normalize_rows_2x2:
  "normalize_rows [[a, b], [c, d]]
   = [[fdiv a (np_sum [a, b]), fdiv b (np_sum [a, b])],
      [fdiv c (np_sum [c, d]), fdiv d (np_sum [c, d])]]"
  by (simp add: normalize_rows_def)

lemma plot_confusion_matrix_ok:
  assumes "length (cnn_predict x) = length labels"
    and "0 \<in> set labels \<or> 1 \<in> set labels"
  defines "pc \<equiv> pair_count labels (map binarize (cnn_predict x))"
  shows "plot_confusion_matrix cnn_predict x labels
         = Inr (normalize_rows [[astype_float (pc 0 0), astype_float (pc 0 1)],
                                [astype_float (pc 1 0), astype_float (pc 1 1)]])"
proof -
  have "length labels = length (map binarize (cnn_predict x))" using assms(1) by simp
  from confusion_matrix_binary [OF this assms(2)]
  show ?thesis by (simp add: plot_confusion_matrix_def pc_def)
qed

lemma normalize_identity:
  "normalize_rows [[astype_float 2, astype_float 0], [astype_float 0, astype_float 2]]
   = [[Finite 1, Finite 0], [Finite 0, Finite 1]]"
  by (simp add: normalize_rows_2x2 np_sum_pair astype_float_def round_float64_small)

lemma normalize_thirds:
  "normalize_rows [[astype_float 0, astype_float 1], [astype_float 2, astype_float 1]]
   = [[Finite 0, Finite 1],
      [Finite (6004799503160661 / 9007199254740992),
       Finite (6004799503160661 / 18014398509481984)]]"
  by (simp add: normalize_rows_2x2 np_sum_pair astype_float_def round_float64_small
      round_float64_third round_float64_two_thirds)

lemma np_sum_thirds:
  "np_sum [Finite (6004799503160661 / 9007199254740992),
           Finite (6004799503160661 / 18014398509481984)] = Finite 1"
proof -
  have "round_float64 (6004799503160661 / 9007199254740992)
        = Finite (6004799503160661 / 9007199254740992)"
    using round_float64_idem [OF _ _ round_float64_two_thirds] by simp
  moreover have "round_float64 (6004799503160661 / 9007199254740992
      + 6004799503160661 / 18014398509481984) = Finite 1"
    by (rule round_float64_near_one) simp_all
  ultimately show ?thesis by (simp only: np_sum_pair fadd.simps add_0_left)
qed

lemma zero_row: 
  "np_sum (map astype_float [0, 0]) = Finite 0"
  "fdiv (astype_float 0) (np_sum [astype_float 0, astype_float 0]) = NaN"
  by (simp_all add: np_sum_def astype_float_def round_float64_def)

text \<open>
  C4. \<open>plot_confusion_matrix\<close> computes the predictions of the model, thresholds them
  at 0.5, counts over the classes 0 and 1 the pairs of true label and thresholded
  prediction into a 2x2 matrix, and divides every entry by the sum of its row: its
  matrix is \<open>cm_norm_spec\<close>, which says this in the words of the specification. No
  matrix is computed on the inputs that scikit-learn rejects with ValueError: labels
  and predictions of different lengths, and labels that hold neither 0 nor 1, among
  them the empty input.
\<close>

theorem plot_confusion_matrix_computes:
  "plot_confusion_matrix cnn_predict input_data input_labels
   = (if length (cnn_predict input_data) \<noteq> length input_labels
         \<or> (0 \<notin> set input_labels \<and> 1 \<notin> set input_labels)
      then Inl ValueError
      else Inr (cm_norm_spec (cnn_predict input_data) input_labels))"
proof (cases "length (cnn_predict input_data) \<noteq> length input_labels
         \<or> (0 \<notin> set input_labels \<and> 1 \<notin> set input_labels)")
  case True
  then have "length input_labels \<noteq> length (map binarize (cnn_predict input_data))
         \<or> (0 \<notin> set input_labels \<and> 1 \<notin> set input_labels)"
    by auto
  from confusion_matrix_error [OF this] True
  show ?thesis by (simp add: plot_confusion_matrix_def)
next
  case False
  then have len: "length (cnn_predict input_data) = length input_labels"
    and ok: "0 \<in> set input_labels \<or> 1 \<in> set input_labels"
    by auto
  have l2: "length input_labels = length (map binarize (cnn_predict input_data))"
    using len by simp
  have "cm_norm_spec (cnn_predict input_data) input_labels
        = normalize_rows
            [[astype_float (pair_count input_labels (map binarize (cnn_predict input_data)) 0 0),
              astype_float (pair_count input_labels (map binarize (cnn_predict input_data)) 0 1)],
             [astype_float (pair_count input_labels (map binarize (cnn_predict input_data)) 1 0),
              astype_float (pair_count input_labels (map binarize (cnn_predict input_data)) 1 1)]]"
    by (simp add: cm_norm_spec_def row_sum_spec_def normalize_rows_2x2 np_sum_pair
        thresholded_binarize pair_count_class_count [OF l2])
  with plot_confusion_matrix_ok [of cnn_predict input_data input_labels, OF len ok] False
  show ?thesis by simp
qed

theorem plot_confusion_matrix_computes_witness:
  "length [Finite (1 / 10), Finite (9 / 10), Finite (1 / 5), Finite (7 / 10)] = length [1, 1, 1, 0 :: int]
   \<and> 1 \<in> set [1, 1, 1, 0 :: int]
   \<and> plot_confusion_matrix (\<lambda>x. x) [Finite (1 / 10), Finite (9 / 10), Finite (1 / 5), Finite (7 / 10)] [1, 1, 1, 0]
       = Inr (cm_norm_spec [Finite (1 / 10), Finite (9 / 10), Finite (1 / 5), Finite (7 / 10)] [1, 1, 1, 0])
   \<and> cm_norm_spec [Finite (1 / 10), Finite (9 / 10), Finite (1 / 5), Finite (7 / 10)] [1, 1, 1, 0]
       = [[Finite 0, Finite 1],
          [Finite (6004799503160661 / 9007199254740992),
           Finite (6004799503160661 / 18014398509481984)]]"
proof -
  have e: "plot_confusion_matrix (\<lambda>x. x) [Finite (1 / 10), Finite (9 / 10), Finite (1 / 5), Finite (7 / 10)] [1, 1, 1, 0]
           = Inr [[Finite 0, Finite 1],
                  [Finite (6004799503160661 / 9007199254740992),
                   Finite (6004799503160661 / 18014398509481984)]]"
    by (simp add: plot_confusion_matrix_def confusion_matrix_def pair_count_def binarize_def
        normalize_thirds)
  show ?thesis
    using plot_confusion_matrix_computes [of "\<lambda>x. x" "[Finite (1 / 10), Finite (9 / 10), Finite (1 / 5), Finite (7 / 10)]" "[1, 1, 1, 0]"] e
    by simp
qed

text \<open>
  C5. When the true labels are \<open>[0, 1, 0, 1]\<close> and the predictions of the model
  threshold to exactly these labels, the normalized matrix is the 2x2 identity: 1.0 on
  the diagonal and 0.0 off it.
\<close>

theorem perfect_predictions_identity:
  assumes "map binarize (cnn_predict input_data) = [0, 1, 0, 1]"
  shows "plot_confusion_matrix cnn_predict input_data [0, 1, 0, 1]
         = Inr [[Finite 1, Finite 0], [Finite 0, Finite 1]]"
proof -
  have "confusion_matrix [0, 1, 0, 1] [0, 1, 0, 1] [0, 1] = Inr [[2, 0], [0, 2]]"
    by (simp add: confusion_matrix_def pair_count_def)
  then show ?thesis
    using assms normalize_identity by (simp add: plot_confusion_matrix_def)
qed

theorem perfect_predictions_identity_witness:
  "map binarize [Finite (1 / 10), Finite (9 / 10), Finite (1 / 5), Finite (7 / 10)] = [0, 1, 0, 1]
   \<and> plot_confusion_matrix (\<lambda>x. x) [Finite (1 / 10), Finite (9 / 10), Finite (1 / 5), Finite (7 / 10)] [0, 1, 0, 1]
       = Inr [[Finite 1, Finite 0], [Finite 0, Finite 1]]"
  using perfect_predictions_identity [of "\<lambda>x. x" "[Finite (1 / 10), Finite (9 / 10), Finite (1 / 5), Finite (7 / 10)]"]
  by (simp add: binarize_def)

text \<open>
  C6. When one of the classes 0 and 1 has no true example among the labels (and the
  other has one, so that scikit-learn accepts the labels), the sum of that row of the
  count matrix is zero and the row normalization divides by it: numpy computes
  \<open>0 / 0\<close> and the row of the normalized matrix is NaN in both entries. Nothing in the
  helper handles the case.
\<close>

theorem zero_class_divides_by_zero:
  assumes "length (cnn_predict input_data) = length input_labels"
    and "c \<in> {0, 1}" and "c \<notin> set input_labels" and "1 - c \<in> set input_labels"
  shows "\<exists>cm cm_norm.
           confusion_matrix input_labels (map binarize (cnn_predict input_data)) [0, 1] = Inr cm
           \<and> np_sum (map astype_float (cm ! nat c)) = Finite 0
           \<and> plot_confusion_matrix cnn_predict input_data input_labels = Inr cm_norm
           \<and> cm_norm ! nat c = [NaN, NaN]"
proof -
  define pc where "pc = pair_count input_labels (map binarize (cnn_predict input_data))"
  have l2: "length input_labels = length (map binarize (cnn_predict input_data))"
    using assms(1) by simp
  have ok: "0 \<in> set input_labels \<or> 1 \<in> set input_labels"
    using assms(2,4) by auto
  have z: "pc c j = 0" for j
    unfolding pc_def by (rule pair_count_absent [OF assms(3)])
  note cm = confusion_matrix_binary [OF l2 ok, folded pc_def]
  note pl = plot_confusion_matrix_ok [of cnn_predict input_data input_labels, OF assms(1) ok,
      folded pc_def, unfolded normalize_rows_2x2]
  from assms(2) have "c = 0 \<or> c = 1" by simp
  then show ?thesis
  proof
    assume c: "c = 0"
    have "np_sum (map astype_float ([[pc 0 0, pc 0 1], [pc 1 0, pc 1 1]] ! nat c)) = Finite 0"
      using z zero_row(1) by (simp add: c)
    moreover have "[[fdiv (astype_float (pc 0 0)) (np_sum [astype_float (pc 0 0), astype_float (pc 0 1)]),
                fdiv (astype_float (pc 0 1)) (np_sum [astype_float (pc 0 0), astype_float (pc 0 1)])],
               [fdiv (astype_float (pc 1 0)) (np_sum [astype_float (pc 1 0), astype_float (pc 1 1)]),
                fdiv (astype_float (pc 1 1)) (np_sum [astype_float (pc 1 0), astype_float (pc 1 1)])]]
               ! nat c = [NaN, NaN]"
      using z [unfolded c] zero_row(2) by (simp add: c)
    ultimately show ?thesis using cm pl by blast
  next
    assume c: "c = 1"
    have "np_sum (map astype_float ([[pc 0 0, pc 0 1], [pc 1 0, pc 1 1]] ! nat c)) = Finite 0"
      using z zero_row(1) by (simp add: c)
    moreover have "[[fdiv (astype_float (pc 0 0)) (np_sum [astype_float (pc 0 0), astype_float (pc 0 1)]),
                fdiv (astype_float (pc 0 1)) (np_sum [astype_float (pc 0 0), astype_float (pc 0 1)])],
               [fdiv (astype_float (pc 1 0)) (np_sum [astype_float (pc 1 0), astype_float (pc 1 1)]),
                fdiv (astype_float (pc 1 1)) (np_sum [astype_float (pc 1 0), astype_float (pc 1 1)])]]
               ! nat c = [NaN, NaN]"
      using z [unfolded c] zero_row(2) by (simp add: c)
    ultimately show ?thesis using cm pl by blast
  qed
qed

theorem zero_class_divides_by_zero_witness:
  "length [Finite (9 / 10), Finite (1 / 5)] = length [1, 1 :: int]
   \<and> (0 :: int) \<in> {0, 1}
   \<and> (0 :: int) \<notin> set [1, 1]
   \<and> (1 - 0 :: int) \<in> set [1, 1]
   \<and> (\<exists>cm cm_norm.
         confusion_matrix [1, 1] (map binarize [Finite (9 / 10), Finite (1 / 5)]) [0, 1] = Inr cm
         \<and> np_sum (map astype_float (cm ! nat 0)) = Finite 0
         \<and> plot_confusion_matrix (\<lambda>x. x) [Finite (9 / 10), Finite (1 / 5)] [1, 1]
             = Inr cm_norm
         \<and> cm_norm ! nat 0 = [NaN, NaN])
   \<and> plot_confusion_matrix (\<lambda>x. x) [Finite (9 / 10), Finite (1 / 5)] [1, 1]
       = Inr [[NaN, NaN], [Finite (1 / 2), Finite (1 / 2)]]"
proof -
  have e: "plot_confusion_matrix (\<lambda>x. x) [Finite (9 / 10), Finite (1 / 5)] [1, 1]
           = Inr [[NaN, NaN], [Finite (1 / 2), Finite (1 / 2)]]"
    by (simp add: plot_confusion_matrix_def confusion_matrix_def pair_count_def binarize_def
        normalize_rows_2x2 np_sum_pair astype_float_def round_float64_small
        round_float64_half)
  show ?thesis
    using e zero_class_divides_by_zero
      [of "\<lambda>x. x" "[Finite (9 / 10), Finite (1 / 5)]" "[1, 1]" 0]
    by simp
qed

text \<open>
  C9. The binarization step maps a prediction to class 1 only when it is strictly
  greater than 0.5: a prediction equal to 0.5 goes to class 0, as does every smaller
  prediction, negative infinity and NaN; every prediction above 0.5 and positive
  infinity go to class 1.
\<close>

theorem binarize_strict:
  "binarize (Finite (1 / 2)) = 0
   \<and> binarize p = (case p of
                     Finite a \<Rightarrow> if 1 / 2 < a then 1 else 0
                   | PosInf \<Rightarrow> 1
                   | NegInf \<Rightarrow> 0
                   | NaN \<Rightarrow> 0)"
  by (cases p) (simp_all add: binarize_def)

text \<open>
  C10. When the labels hold at least one 0 and at least one 1 and there is one
  prediction for each label, the helper computes a matrix of two rows of two finite
  entries. The entries are quotients rounded to double precision, so the sum of a row
  need not be 1: it differs from 1 by at most \<open>2 ^ -54\<close>, and adding the entries in
  double precision, as numpy's \<open>sum\<close> does, gives exactly 1.0. The counts are converted
  to doubles exactly, which takes that there are at most \<open>2 ^ 53\<close> labels.
\<close>

theorem confusion_rows_sum_near_one:
  assumes "length (cnn_predict input_data) = length input_labels"
    and "0 \<in> set input_labels" and "1 \<in> set input_labels"
    and "length input_labels \<le> 2 ^ 53"
  shows "\<exists>x0 y0 x1 y1.
           plot_confusion_matrix cnn_predict input_data input_labels
             = Inr [[Finite x0, Finite y0], [Finite x1, Finite y1]]
           \<and> \<bar>x0 + y0 - 1\<bar> \<le> 1 / 2 ^ 54 \<and> \<bar>x1 + y1 - 1\<bar> \<le> 1 / 2 ^ 54
           \<and> np_sum [Finite x0, Finite y0] = Finite 1
           \<and> np_sum [Finite x1, Finite y1] = Finite 1"
proof -
  define pc where "pc = pair_count input_labels (map binarize (cnn_predict input_data))"
  have l2: "length input_labels = length (map binarize (cnn_predict input_data))"
    using assms(1) by simp
  have sum: "pc i 0 + pc i 1 = int (count_list input_labels i)" for i
    unfolding pc_def by (rule pair_count_sum [OF l2 binarize_range])
  have nn: "0 \<le> pc i j" for i j
    unfolding pc_def by (rule pair_count_nonneg)
  have "int (count_list input_labels i) \<le> int (2 ^ 53)" for i
    using count_le_length [of input_labels i] assms(4) by (simp only: of_nat_le_iff)
  then have le: "pc i 0 + pc i 1 \<le> 2 ^ 53" for i
    using sum [of i] by simp
  have pos: "0 < pc i 0 + pc i 1" if "i \<in> set input_labels" for i
  proof -
    have "count_list input_labels i \<noteq> 0" using that by (simp add: count_list_0_iff)
    then show ?thesis using sum [of i] by simp
  qed
  from normalized_row_sum [OF nn nn pos [OF assms(2)] le] obtain x0 y0 where
    r0: "[fdiv (astype_float (pc 0 0)) (np_sum [astype_float (pc 0 0), astype_float (pc 0 1)]),
          fdiv (astype_float (pc 0 1)) (np_sum [astype_float (pc 0 0), astype_float (pc 0 1)])]
         = [Finite x0, Finite y0]"
    and b0: "\<bar>x0 + y0 - 1\<bar> \<le> 1 / 2 ^ 54" "np_sum [Finite x0, Finite y0] = Finite 1"
    by auto
  from normalized_row_sum [OF nn nn pos [OF assms(3)] le] obtain x1 y1 where
    r1: "[fdiv (astype_float (pc 1 0)) (np_sum [astype_float (pc 1 0), astype_float (pc 1 1)]),
          fdiv (astype_float (pc 1 1)) (np_sum [astype_float (pc 1 0), astype_float (pc 1 1)])]
         = [Finite x1, Finite y1]"
    and b1: "\<bar>x1 + y1 - 1\<bar> \<le> 1 / 2 ^ 54" "np_sum [Finite x1, Finite y1] = Finite 1"
    by auto
  have "0 \<in> set input_labels \<or> 1 \<in> set input_labels"
    using assms(2) by simp
  from plot_confusion_matrix_ok [of cnn_predict input_data input_labels, OF assms(1) this]
  have "plot_confusion_matrix cnn_predict input_data input_labels
        = Inr [[fdiv (astype_float (pc 0 0)) (np_sum [astype_float (pc 0 0), astype_float (pc 0 1)]),
                fdiv (astype_float (pc 0 1)) (np_sum [astype_float (pc 0 0), astype_float (pc 0 1)])],
               [fdiv (astype_float (pc 1 0)) (np_sum [astype_float (pc 1 0), astype_float (pc 1 1)]),
                fdiv (astype_float (pc 1 1)) (np_sum [astype_float (pc 1 0), astype_float (pc 1 1)])]]"
    by (simp only: normalize_rows_2x2 pc_def)
  then have "plot_confusion_matrix cnn_predict input_data input_labels
        = Inr [[Finite x0, Finite y0], [Finite x1, Finite y1]]"
    by (simp only: r0 r1)
  with b0 b1 show ?thesis by blast
qed

lemma example_thirds:
  "plot_confusion_matrix (\<lambda>x. x) [Finite (1 / 10), Finite (9 / 10), Finite (1 / 5), Finite (7 / 10)] [1, 1, 1, 0]
   = Inr [[Finite 0, Finite 1],
          [Finite (6004799503160661 / 9007199254740992),
           Finite (6004799503160661 / 18014398509481984)]]"
  by (simp add: plot_confusion_matrix_def confusion_matrix_def pair_count_def binarize_def
      normalize_thirds)

theorem confusion_rows_sum_near_one_witness:
  "length [Finite (1 / 10), Finite (9 / 10), Finite (1 / 5), Finite (7 / 10)] = length [1, 1, 1, 0 :: int]
   \<and> (0 :: int) \<in> set [1, 1, 1, 0]
   \<and> (1 :: int) \<in> set [1, 1, 1, 0]
   \<and> length [1, 1, 1, 0 :: int] \<le> 2 ^ 53
   \<and> (\<exists>x0 y0 x1 y1.
         plot_confusion_matrix (\<lambda>x. x) [Finite (1 / 10), Finite (9 / 10), Finite (1 / 5), Finite (7 / 10)] [1, 1, 1, 0]
           = Inr [[Finite x0, Finite y0], [Finite x1, Finite y1]]
         \<and> \<bar>x0 + y0 - 1\<bar> \<le> 1 / 2 ^ 54 \<and> \<bar>x1 + y1 - 1\<bar> \<le> 1 / 2 ^ 54
         \<and> np_sum [Finite x0, Finite y0] = Finite 1
         \<and> np_sum [Finite x1, Finite y1] = Finite 1)"
  using confusion_rows_sum_near_one [of "\<lambda>x. x" "[Finite (1 / 10), Finite (9 / 10), Finite (1 / 5), Finite (7 / 10)]" "[1, 1, 1, 0]"]
  by simp

text \<open>
  With the labels \<open>[1, 1, 1, 0]\<close> and predictions that threshold to \<open>[0, 1, 0, 1]\<close>, class
  1 has two examples predicted 0 and one predicted 1. The second row of the matrix holds
  the doubles nearest to 2/3 and 1/3, and their sum is \<open>1 - 2 ^ -54\<close>, not 1.
\<close>

theorem confusion_rows_exact_sum_counterexample:
  "length [Finite (1 / 10), Finite (9 / 10), Finite (1 / 5), Finite (7 / 10)] = length [1, 1, 1, 0 :: int]
   \<and> (0 :: int) \<in> set [1, 1, 1, 0]
   \<and> (1 :: int) \<in> set [1, 1, 1, 0]
   \<and> plot_confusion_matrix (\<lambda>x. x) [Finite (1 / 10), Finite (9 / 10), Finite (1 / 5), Finite (7 / 10)] [1, 1, 1, 0]
       = Inr [[Finite 0, Finite 1],
              [Finite (6004799503160661 / 9007199254740992),
               Finite (6004799503160661 / 18014398509481984)]]
   \<and> (6004799503160661 / 9007199254740992 + 6004799503160661 / 18014398509481984 :: rat)
       = 1 - 1 / 2 ^ 54
   \<and> (6004799503160661 / 9007199254740992 + 6004799503160661 / 18014398509481984 :: rat)
       \<noteq> 1"
  using example_thirds by simp

section \<open>Properties of the network\<close>

lemma pool_steps: "2 \<le> steps \<Longrightarrow> (steps - 2) div 2 + 1 = steps div 2" for steps :: nat
  by presburger

lemma cnn_short:
  assumes "shape (train_data ds) = n # len # rest" and "len < 4"
  shows "cnn ds = Inl ValueError"
proof (cases "len < 2")
  case True
  then show ?thesis
    using assms(1) by (simp add: cnn_def Input_def call_def and_then_def output_shape_def Let_def)
next
  case False
  then have "2 \<le> len" by simp
  moreover from this assms(2) have "len div 2 < 2" by simp
  ultimately show ?thesis
    using assms(1) by (simp add: cnn_def Input_def call_def and_then_def output_shape_def Let_def pool_steps)
qed

text \<open>
  C7. For training data with at least two axes and windows of at least four cadences,
  the model-definition step builds the model whose layers are, in this order: the
  input, a convolution, a max-pooling, a dropout, a convolution, a max-pooling, a
  dropout, a flatten, a dense layer, a dropout, and a final dense layer of one unit
  with sigmoid activation, whose output has one component. For shorter windows the
  second max-pooling has nothing to pool: Keras raises ValueError and no model is
  built.
\<close>

theorem cnn_layers:
  assumes "shape (train_data ds) = n # len # rest"
  shows "if 4 \<le> len
         then \<exists>m. cnn ds = Inr m
                \<and> model_layers m
                  = [InputLayer [len, 1],
                     Convolution1D 7 16 Relu Same, MaxPooling1D 2, Dropout (1 / 10),
                     Convolution1D 3 64 Relu Same, MaxPooling1D 2, Dropout (1 / 10),
                     Flatten, Dense 32 Relu, Dropout (1 / 10),
                     Dense 1 Sigmoid]
                \<and> tensor_shape (outputs m) = [1]
         else cnn ds = Inl ValueError"
proof (cases "4 \<le> len")
  case True
  then have "2 \<le> len" "\<not> len div 2 < 2" by simp_all
  then show ?thesis
    using assms True
    by (simp add: cnn_def model_layers_def Input_def call_def and_then_def output_shape_def Let_def pool_steps)
next
  case False
  then show ?thesis using cnn_short [OF assms] by simp
qed

theorem cnn_layers_witness:
  "shape (train_data example_windows) = 2 # 200 # [1]
   \<and> (4 :: nat) \<le> 200
   \<and> (\<exists>m. cnn example_windows = Inr m
         \<and> model_layers m
           = [InputLayer [200, 1],
              Convolution1D 7 16 Relu Same, MaxPooling1D 2, Dropout (1 / 10),
              Convolution1D 3 64 Relu Same, MaxPooling1D 2, Dropout (1 / 10),
              Flatten, Dense 32 Relu, Dropout (1 / 10),
              Dense 1 Sigmoid]
         \<and> tensor_shape (outputs m) = [1])"
proof -
  have h: "shape (train_data example_windows) = 2 # 200 # [1]"
    by (simp add: example_windows_def)
  show ?thesis
    using h cnn_layers [OF h] by simp
qed

end
